(* ===== verification/Prelude.thy ===== *)
theory Prelude
  imports Main "HOL-Library.AList" "HOL-Library.Char_ord" "HOL-Library.List_Lexorder"
    "HOL-Library.Multiset"
begin

text \<open>
  Shared types, collections of facts and generic lemmas of the development.

  A Go \<open>string\<close> and a Go \<open>[]byte\<close> are both finite byte sequences; the eight-bit type
  \<^typ>\<open>char\<close> is a byte, so both are \<^typ>\<open>char list\<close>. Go orders strings byte by byte, which is
  the lexicographic order of \<^theory_text>\<open>HOL-Library.List_Lexorder\<close> over \<^theory_text>\<open>Char_ord\<close>.
  A Go function that returns \<open>(T, error)\<close> is a function into \<open>err + 'a\<close>.
\<close>

type_synonym bytes = "char list"

named_theorems res_simps \<open>equations that resolve the early returns of an operation\<close>
named_theorems wf_intros \<open>introduction rules for the well-formedness invariants\<close>

section \<open>Bytes\<close>

abbreviation byte_val :: "char \<Rightarrow> nat" where
  "byte_val c \<equiv> of_char c"

abbreviation val_byte :: "nat \<Rightarrow> char" where
  "val_byte n \<equiv> char_of n"

lemma byte_val_less [simp]: "byte_val c < 256"
  by (fact nat_of_char_less_256)

lemma val_byte_of_val [simp]: "val_byte (byte_val c) = c"
  by (rule char_of_char)

lemma byte_val_of_byte: "n < 256 \<Longrightarrow> byte_val (val_byte n) = n"
  by simp

text \<open>The same conversions on integers, whose numerals the simplifier computes with.\<close>

lemma byte_val_int: "of_char c = int (byte_val c)"
  by (metis of_nat_of_char)

lemma val_byte_int: "0 \<le> i \<Longrightarrow> val_byte (nat i) = char_of i"
  by (metis char_of_nat nat_0_le)

text \<open>Seven-bit text, such as tokens and the decimals of dates.\<close>

abbreviation ascii :: "bytes \<Rightarrow> bool" where
  "ascii \<equiv> list_all (\<lambda>c. byte_val c < 128)"

section \<open>Results\<close>

text \<open>Sequencing of fallible steps: the first error is the result (\<open>if err != nil { return err }\<close>).\<close>

definition bindR :: "'e + 'a \<Rightarrow> ('a \<Rightarrow> 'e + 'b) \<Rightarrow> 'e + 'b" where
  "bindR r f = (case r of Inl e \<Rightarrow> Inl e | Inr x \<Rightarrow> f x)"

lemma bindR_simps [simp]:
  "bindR (Inl e) f = Inl e"
  "bindR (Inr x) f = f x"
  by (simp_all add: bindR_def)

lemma bindR_Inr_iff [res_simps]: "bindR r f = Inr y \<longleftrightarrow> (\<exists>x. r = Inr x \<and> f x = Inr y)"
  by (cases r) auto

lemma bindR_Inl_iff [res_simps]:
  "bindR r f = Inl e \<longleftrightarrow> r = Inl e \<or> (\<exists>x. r = Inr x \<and> f x = Inl e)"
  by (cases r) auto

text \<open>A loop over a slice that returns at the first error and collects the results.\<close>

fun mapR :: "('a \<Rightarrow> 'e + 'b) \<Rightarrow> 'a list \<Rightarrow> 'e + 'b list" where
  "mapR f [] = Inr []"
| "mapR f (x # xs) =
     (case f x of Inl e \<Rightarrow> Inl e
      | Inr y \<Rightarrow> (case mapR f xs of Inl e \<Rightarrow> Inl e | Inr ys \<Rightarrow> Inr (y # ys)))"

lemma mapR_Inr_iff [res_simps]:
  "mapR f xs = Inr ys \<longleftrightarrow> list_all2 (\<lambda>x y. f x = Inr y) xs ys"
proof (induction xs arbitrary: ys)
  case Nil
  then show ?case by auto
next
  case (Cons x xs)
  show ?case
    by (cases ys) (auto simp flip: Cons.IH split: sum.splits)
qed

text \<open>A loop whose body is the function \<open>g\<close> where \<open>ok\<close> holds is the map of \<open>g\<close> where it always holds.\<close>

lemma mapR_iff:
  assumes "\<And>x y. x \<in> set xs \<Longrightarrow> f x = Inr y \<longleftrightarrow> ok x \<and> y = g x"
  shows "mapR f xs = Inr ys \<longleftrightarrow> list_all ok xs \<and> ys = map g xs"
  using assms
proof (induction xs arbitrary: ys)
  case (Cons x xs)
  have "mapR f (x # xs) = Inr ys \<longleftrightarrow> (\<exists>z zs. ys = z # zs \<and> f x = Inr z \<and> mapR f xs = Inr zs)"
    by (auto split: sum.splits)
  also have "\<dots> \<longleftrightarrow> (\<exists>z zs. ys = z # zs \<and> (ok x \<and> z = g x) \<and> list_all ok xs \<and> zs = map g xs)"
    using Cons.IH [of zs for zs] Cons.prems by (simp only: list.set_intros)
  finally show ?case by auto
qed auto

lemma mapR_Inl_D: "mapR f xs = Inl e \<Longrightarrow> \<exists>x \<in> set xs. f x = Inl e"
  by (induction xs) (auto split: sum.splits)

lemma mapR_cong [fundef_cong]:
  "xs = ys \<Longrightarrow> (\<And>x. x \<in> set ys \<Longrightarrow> f x = g x) \<Longrightarrow> mapR f xs = mapR g ys"
  by (induction ys arbitrary: xs) (auto split: sum.splits)

text \<open>The first failing element of a slice, as a validation loop reports it.\<close>

fun firstErr :: "('a \<Rightarrow> 'e option) \<Rightarrow> 'a list \<Rightarrow> 'e option" where
  "firstErr f [] = None"
| "firstErr f (x # xs) = (case f x of Some e \<Rightarrow> Some e | None \<Rightarrow> firstErr f xs)"

lemma firstErr_None_iff [res_simps]: "firstErr f xs = None \<longleftrightarrow> (\<forall>x \<in> set xs. f x = None)"
  by (induction xs) (auto split: option.splits)

lemma firstErr_Some_D: "firstErr f xs = Some e \<Longrightarrow> \<exists>x \<in> set xs. f x = Some e"
  by (induction xs) (auto split: option.splits)

text \<open>A chain of guards succeeds when none of them fires.\<close>

lemma guard_None [res_simps]: "(if b then Some e else y) = None \<longleftrightarrow> \<not> b \<and> y = None"
  by simp

lemma case_first_None [res_simps]:
  "(case x of None \<Rightarrow> y | Some e \<Rightarrow> Some (f e)) = None \<longleftrightarrow> x = None \<and> y = None"
  by (cases x) simp_all

section \<open>Encodings\<close>

text \<open>An encoder and a decoder that undoes it: what the library relies on of every text encoding.\<close>

locale text_coding =
  fixes enc :: "'a \<Rightarrow> 'b"
    and dec :: "'b \<Rightarrow> 'a option"
  assumes dec_enc: "dec (enc x) = Some x"
begin

lemma inject: "enc x = enc y \<longleftrightarrow> x = y"
  by (metis dec_enc option.inject)

lemma inj: "inj enc"
  by (rule injI) (simp add: inject)

lemma dec_all: "map dec (map enc xs) = map Some xs"
  by (simp add: dec_enc)

end

section \<open>Cutting byte sequences\<close>

text \<open>\<open>strings.Cut\<close> at a one-byte separator: what is before it, what is after it, whether it occurs.\<close>

fun cut :: "char \<Rightarrow> bytes \<Rightarrow> bytes \<times> bytes \<times> bool" where
  "cut c [] = ([], [], False)"
| "cut c (x # xs) =
     (if x = c then ([], xs, True)
      else (case cut c xs of (a, b, f) \<Rightarrow> (x # a, b, f)))"

lemma cut_append [simp]: "c \<notin> set xs \<Longrightarrow> cut c (xs @ c # ys) = (xs, ys, True)"
  by (induction xs) auto

lemma cut_absent [simp]: "c \<notin> set xs \<Longrightarrow> cut c xs = (xs, [], False)"
  by (induction xs) auto

lemma cut_extend: "c \<in> set xs \<Longrightarrow> cut c (xs @ ys) = (case cut c xs of (a, b, f) \<Rightarrow> (a, b @ ys, f))"
  by (induction xs) (auto split: prod.splits)

lemma cut_length: "cut c xs = (a, b, f) \<Longrightarrow> length a \<le> length xs \<and> length b \<le> length xs"
  by (induction xs arbitrary: a b f) (fastforce split: prod.splits if_splits)+

lemma cut_length_found: "cut c xs = (a, b, True) \<Longrightarrow> length b < length xs"
  by (induction xs arbitrary: a b) (fastforce split: prod.splits if_splits)+

lemma cut_tail_less: "xs \<noteq> [] \<Longrightarrow> cut c xs = (a, b, f) \<Longrightarrow> length b < length xs"
  by (induction xs arbitrary: a b f) (fastforce split: prod.splits if_splits)+

text \<open>Looking up in a list by a key that no two elements share.\<close>

lemma find_unique:
  assumes "distinct (map f xs)" and "m \<in> set xs" and "f m = k"
  shows "find (\<lambda>x. f x = k) xs = Some m"
  using assms by (induction xs) (auto simp: image_iff)

end
