(* ===== verification/Go_Base64.thy ===== *)
theory Go_Base64
  imports Prelude
begin

text \<open>
  \<open>base64.RawURLEncoding\<close> of the Go standard library, as the source uses it: the encoder without
  padding, and the non-strict decoder, which skips carriage returns and line feeds, ignores unused
  low bits of the last quantum and reports a lone last character as corrupt. The lemmas give the
  round trip, the lengths and the alphabet of an encoding.
\<close>

section \<open>Alphabet\<close>

definition b64_alphabet :: string where
  "b64_alphabet = ''ABCDEFGHIJKLMNOPQRSTUVWXYZabcdefghijklmnopqrstuvwxyz0123456789-_''"

definition b64_char :: "nat \<Rightarrow> char" where
  "b64_char n = b64_alphabet ! n"

definition b64_val :: "char \<Rightarrow> nat option" where
  "b64_val c = map_of (zip b64_alphabet [0..<64]) c"

lemma b64_alphabet_length: "length b64_alphabet = 64"
  by (simp add: b64_alphabet_def)

lemma b64_alphabet_distinct: "distinct b64_alphabet"
  by (simp add: b64_alphabet_def)

lemma b64_val_char [simp]: "n < 64 \<Longrightarrow> b64_val (b64_char n) = Some n"
  unfolding b64_val_def b64_char_def
  by (subst map_of_zip_nth) (simp_all add: b64_alphabet_length b64_alphabet_distinct)

lemma b64_char_in: "n < 64 \<Longrightarrow> b64_char n \<in> set b64_alphabet"
  by (simp add: b64_char_def b64_alphabet_length)

lemma b64_val_less: "b64_val c = Some n \<Longrightarrow> n < 64"
  unfolding b64_val_def by (drule map_of_SomeD) (auto dest: set_zip_rightD)

section \<open>Encoding\<close>

fun b64_encode :: "bytes \<Rightarrow> string" where
  "b64_encode [] = []"
| "b64_encode [a] =
     (let v = byte_val a * 16
      in [b64_char (v div 64), b64_char (v mod 64)])"
| "b64_encode [a, b] =
     (let v = (byte_val a * 256 + byte_val b) * 4
      in [b64_char (v div 4096), b64_char (v div 64 mod 64), b64_char (v mod 64)])"
| "b64_encode (a # b # c # r) =
     (let v = byte_val a * 65536 + byte_val b * 256 + byte_val c
      in b64_char (v div 262144) # b64_char (v div 4096 mod 64) # b64_char (v div 64 mod 64)
         # b64_char (v mod 64) # b64_encode r)"

section \<open>Decoding\<close>

text \<open>Sextets to bytes; \<open>None\<close> is \<open>CorruptInputError\<close>.\<close>

fun b64_groups :: "nat list \<Rightarrow> bytes option" where
  "b64_groups [] = Some []"
| "b64_groups [p] = None"
| "b64_groups [p, q] = Some [val_byte ((p * 64 + q) div 16)]"
| "b64_groups [p, q, r] =
     (let v = (p * 4096 + q * 64 + r) div 4 in Some [val_byte (v div 256), val_byte (v mod 256)])"
| "b64_groups (p # q # r # s # t) =
     (let v = p * 262144 + q * 4096 + r * 64 + s
      in map_option (\<lambda>bs. val_byte (v div 65536) # val_byte (v div 256 mod 256)
           # val_byte (v mod 256) # bs) (b64_groups t))"

fun sextets :: "string \<Rightarrow> nat list option" where
  "sextets [] = Some []"
| "sextets (c # cs) =
     (if c = CHR 0x0A \<or> c = CHR 0x0D then sextets cs
      else case b64_val c of None \<Rightarrow> None | Some n \<Rightarrow> map_option (\<lambda>ns. n # ns) (sextets cs))"

definition b64_decode :: "string \<Rightarrow> bytes option" where
  "b64_decode s = Option.bind (sextets s) b64_groups"

text \<open>The same equations over integers, for evaluation.\<close>

definition b64_char_int :: "int \<Rightarrow> char" where
  "b64_char_int i = b64_char (nat i)"

lemma b64_encode_code [code]:
  "b64_encode [] = []"
  "b64_encode [a] =
     (let v = of_char a * 16 in [b64_char_int (v div 64), b64_char_int (v mod 64)])"
  "b64_encode [a, b] =
     (let v = (of_char a * 256 + of_char b) * 4
      in [b64_char_int (v div 4096), b64_char_int (v div 64 mod 64), b64_char_int (v mod 64)])"
  "b64_encode (a # b # c # r) =
     (let v = of_char a * 65536 + of_char b * 256 + of_char c
      in b64_char_int (v div 262144) # b64_char_int (v div 4096 mod 64)
         # b64_char_int (v div 64 mod 64) # b64_char_int (v mod 64) # b64_encode r)"
  by (simp_all add: b64_char_int_def Let_def nat_div_distrib nat_mod_distrib nat_add_distrib
      nat_mult_distrib byte_val_int)

definition val_byte_of :: "int \<Rightarrow> char" where
  "val_byte_of i = val_byte (nat i)"

lemma val_byte_of_code [code]: "val_byte_of i = (if i < 0 then val_byte 0 else char_of i)"
  by (simp add: val_byte_of_def flip: val_byte_int)

lemma b64_groups_code [code]:
  "b64_groups [] = Some []"
  "b64_groups [p] = None"
  "b64_groups [p, q] = Some [val_byte_of ((int p * 64 + int q) div 16)]"
  "b64_groups [p, q, r] =
     (let v = (int p * 4096 + int q * 64 + int r) div 4
      in Some [val_byte_of (v div 256), val_byte_of (v mod 256)])"
  "b64_groups (p # q # r # s # t) =
     (let v = int p * 262144 + int q * 4096 + int r * 64 + int s
      in map_option (\<lambda>bs. val_byte_of (v div 65536) # val_byte_of (v div 256 mod 256)
           # val_byte_of (v mod 256) # bs) (b64_groups t))"
  by (simp_all add: val_byte_of_def Let_def nat_div_distrib nat_mod_distrib nat_add_distrib
      nat_mult_distrib)

section \<open>Round trip\<close>

lemma newline_not_b64: "c \<in> set b64_alphabet \<Longrightarrow> c \<noteq> CHR 0x0A \<and> c \<noteq> CHR 0x0D"
  by (auto simp: b64_alphabet_def)

lemma sextets_char [simp]:
  "n < 64 \<Longrightarrow> sextets (b64_char n # cs) = map_option (\<lambda>ns. n # ns) (sextets cs)"
  using newline_not_b64 [OF b64_char_in [of n]] by simp

text \<open>The digits of a quantum in base 64 are digits, and reassemble to the quantum.\<close>

lemma digit_split:
  fixes q r d :: nat
  assumes "r < d"
  shows "(q * d + r) div d = q" and "(q * d + r) mod d = r"
  using assms by auto

lemma sextets_sum:
  fixes v :: nat
  shows "v div 4096 * 4096 + v div 64 mod 64 * 64 + v mod 64 = v"
proof -
  have "v div 64 div 64 = v div 4096" by (simp flip: div_mult2_eq)
  then have "v div 4096 * 64 + v div 64 mod 64 = v div 64"
    using div_mult_mod_eq [of "v div 64" 64] by simp
  then show ?thesis using div_mult_mod_eq [of v 64] by linarith
qed

lemma quantum1:
  fixes x :: nat
  assumes "x < 256"
  shows "x * 16 div 64 < 64" and "(x * 16 div 64 * 64 + x * 16 mod 64) div 16 = x"
proof -
  show "x * 16 div 64 < 64" using assms by (intro less_mult_imp_div_less) simp
  show "(x * 16 div 64 * 64 + x * 16 mod 64) div 16 = x"
    by (simp only: div_mult_mod_eq)
qed

lemma quantum2:
  fixes x y :: nat
  assumes "x < 256" and "y < 256"
  defines "v \<equiv> (x * 256 + y) * 4"
  shows "v div 4096 < 64"
    and "(v div 4096 * 4096 + v div 64 mod 64 * 64 + v mod 64) div 4 = x * 256 + y"
    and "(x * 256 + y) div 256 = x" and "(x * 256 + y) mod 256 = y"
proof -
  show "v div 4096 < 64" unfolding v_def using assms(1,2) by (intro less_mult_imp_div_less) simp
  show "(v div 4096 * 4096 + v div 64 mod 64 * 64 + v mod 64) div 4 = x * 256 + y"
    by (simp only: sextets_sum) (simp add: v_def)
qed (use digit_split [OF assms(2)] in blast)+

lemma quantum3:
  fixes x y z :: nat
  assumes "x < 256" and "y < 256" and "z < 256"
  defines "v \<equiv> x * 65536 + y * 256 + z"
  shows "v div 262144 < 64"
    and "v div 262144 * 262144 + v div 4096 mod 64 * 4096 + v div 64 mod 64 * 64 + v mod 64 = v"
    and "v div 65536 = x" and "v div 256 mod 256 = y" and "v mod 256 = z"
proof -
  show "v div 262144 < 64" unfolding v_def using assms(1-3)
    by (intro less_mult_imp_div_less) simp
  have "v div 4096 div 64 = v div 262144" by (simp flip: div_mult2_eq)
  then have "v div 262144 * 64 + v div 4096 mod 64 = v div 4096"
    using div_mult_mod_eq [of "v div 4096" 64] by simp
  then show "v div 262144 * 262144 + v div 4096 mod 64 * 4096 + v div 64 mod 64 * 64
      + v mod 64 = v"
    using sextets_sum [of v] by linarith
  have v: "v = (x * 256 + y) * 256 + z" by (simp add: v_def)
  show "v mod 256 = z" unfolding v by (rule digit_split(2) [OF assms(3)])
  have v256: "v div 256 = x * 256 + y" unfolding v by (rule digit_split(1) [OF assms(3)])
  show "v div 256 mod 256 = y" using v256 digit_split [OF assms(2)] by simp
  have "v div 65536 = v div 256 div 256" by (simp flip: div_mult2_eq)
  then show "v div 65536 = x" using v256 digit_split [OF assms(2)] by simp
qed

theorem b64_round_trip: "b64_decode (b64_encode bs) = Some bs"
proof (induction bs rule: b64_encode.induct)
  case 1
  show ?case by (simp add: b64_decode_def)
next
  case (2 a)
  note q = quantum1 [OF byte_val_less [of a]]
  show ?case
    by (simp only: b64_encode.simps b64_decode_def Let_def sextets_char q(1) mod_less_divisor
        zero_less_numeral sextets.simps(1) option.map bind.simps b64_groups.simps q(2)
        val_byte_of_val)
next
  case (3 a b)
  note q = quantum2 [OF byte_val_less [of a] byte_val_less [of b]]
  show ?case
    by (simp only: b64_encode.simps b64_decode_def Let_def sextets_char q mod_less_divisor
        zero_less_numeral sextets.simps(1) option.map bind.simps b64_groups.simps
        val_byte_of_val)
next
  case (4 a b c r)
  note q = quantum3 [OF byte_val_less [of a] byte_val_less [of b] byte_val_less [of c]]
  from 4 obtain ns where "sextets (b64_encode r) = Some ns" and "b64_groups ns = Some r"
    by (auto simp: b64_decode_def bind_eq_Some_conv)
  then show ?case
    by (simp only: b64_encode.simps b64_decode_def Let_def sextets_char q mod_less_divisor
        zero_less_numeral option.map bind.simps b64_groups.simps val_byte_of_val)
qed

interpretation b64: text_coding b64_encode b64_decode
  by unfold_locales (rule b64_round_trip)

lemma b64_encode_alphabet: "set (b64_encode bs) \<subseteq> set b64_alphabet"
  using quantum1(1) quantum2(1) quantum3(1)
  by (induction bs rule: b64_encode.induct) (simp_all add: Let_def b64_char_in)

lemma b64_encode_length: "length (b64_encode bs) = (length bs * 4 + 2) div 3"
  by (induction bs rule: b64_encode.induct) (auto simp: Let_def)

lemma b64_encode_Nil_iff [simp]: "b64_encode bs = [] \<longleftrightarrow> bs = []"
  by (cases bs rule: b64_encode.cases) (auto simp: Let_def)

section \<open>The standard encoding\<close>

text \<open>
  \<open>base64.StdEncoding\<close>, in which \<open>encoding/json\<close> writes and reads a \<open>[]byte\<close>: two other characters and
  padding to a multiple of four. The decoder skips line breaks and is not strict either.
\<close>

definition std_char :: "char \<Rightarrow> char" where
  "std_char c = (if c = CHR ''-'' then CHR ''+'' else if c = CHR ''_'' then CHR ''/'' else c)"

definition raw_char :: "char \<Rightarrow> char option" where
  "raw_char c =
     (if c = CHR ''+'' then Some (CHR ''-'') else if c = CHR ''/'' then Some (CHR ''_'')
      else if c = CHR ''-'' \<or> c = CHR ''_'' then None else Some c)"

definition std_encode :: "bytes \<Rightarrow> string" where
  "std_encode bs = map std_char (b64_encode bs) @ replicate ((3 - length bs mod 3) mod 3) (CHR ''='')"

definition std_decode :: "string \<Rightarrow> bytes option" where
  "std_decode s =
     (let t = filter (\<lambda>c. c \<noteq> CHR 0x0A \<and> c \<noteq> CHR 0x0D) s;
          n = length (takeWhile (\<lambda>c. c = CHR ''='') (rev t)) in
      if n \<le> 2 \<and> length t mod 4 = 0 then
        Option.bind (those (map raw_char (take (length t - n) t))) b64_decode
      else None)"

lemma std_char_alphabet: "c \<in> set b64_alphabet \<Longrightarrow>
    raw_char (std_char c) = Some c \<and> std_char c \<notin> {CHR ''='', CHR 0x0A, CHR 0x0D}"
proof -
  have "\<forall>c \<in> set b64_alphabet. raw_char (std_char c) = Some c
      \<and> std_char c \<noteq> CHR ''='' \<and> std_char c \<noteq> CHR 0x0A \<and> std_char c \<noteq> CHR 0x0D"
    by (simp add: b64_alphabet_def raw_char_def std_char_def)
  then show "c \<in> set b64_alphabet \<Longrightarrow> ?thesis" by simp
qed

lemma those_map_Some: "\<forall>x \<in> set xs. f x = Some (g x) \<Longrightarrow> those (map f xs) = Some (map g xs)"
  by (induction xs) auto

lemma b64_pad_length: "(length (b64_encode bs) + (3 - length bs mod 3) mod 3) mod 4 = 0"
proof (induction bs rule: b64_encode.induct)
  case (4 a b c r)
  have "length (a # b # c # r) = length r + 3" by simp
  then have "length (a # b # c # r) mod 3 = length r mod 3" by (simp only: mod_add_self2)
  moreover have "length (b64_encode (a # b # c # r)) = 4 + length (b64_encode r)" by (simp add: Let_def)
  ultimately show ?case using 4 by (metis add.assoc mod_add_self1)
qed (simp_all add: Let_def)

theorem std_round_trip: "std_decode (std_encode bs) = Some bs"
proof -
  let ?b = "map std_char (b64_encode bs)"
  define k where "k = (3 - length bs mod 3) mod 3"
  have k: "k \<le> 2" using mod_less_divisor [of 3 "3 - length bs mod 3"] unfolding k_def by simp
  have ab: "\<forall>c \<in> set (b64_encode bs). raw_char (std_char c) = Some c
      \<and> std_char c \<notin> {CHR ''='', CHR 0x0A, CHR 0x0D}"
    using b64_encode_alphabet [of bs] std_char_alphabet by blast
  then have f: "filter (\<lambda>c. c \<noteq> CHR 0x0A \<and> c \<noteq> CHR 0x0D) (std_encode bs) = std_encode bs"
    by (intro filter_True) (auto simp: std_encode_def)
  have "takeWhile (\<lambda>c. c = CHR ''='') (rev (std_encode bs)) = replicate k (CHR ''='')"
  proof -
    have "takeWhile (\<lambda>c. c = CHR ''='') (rev ?b) = []"
      using ab by (cases "rev (b64_encode bs)") (auto simp flip: rev_map simp: rev_swap)
    then show ?thesis by (simp add: std_encode_def takeWhile_append flip: k_def)
  qed
  moreover have "length (std_encode bs) mod 4 = 0"
    using b64_pad_length [of bs] by (simp add: std_encode_def)
  moreover have "take (length (std_encode bs) - k) (std_encode bs) = ?b"
    by (simp add: std_encode_def flip: k_def)
  moreover have "those (map raw_char ?b) = Some (b64_encode bs)"
    using those_map_Some [of "b64_encode bs" "raw_char \<circ> std_char" id] ab by simp
  ultimately show ?thesis
    using k by (simp add: std_decode_def f b64_round_trip)
qed

interpretation std: text_coding std_encode std_decode
  by unfold_locales (rule std_round_trip)

lemma std_encode_ascii: "ascii (std_encode bs)"
proof -
  have "\<forall>c \<in> set b64_alphabet. byte_val (std_char c) < 128"
    by (simp add: b64_alphabet_def std_char_def)
  then show ?thesis using b64_encode_alphabet [of bs]
    by (auto simp: std_encode_def list_all_iff)
qed

lemma b64_encode_ascii: "ascii (b64_encode bs)"
proof -
  have "\<forall>c \<in> set b64_alphabet. byte_val c < 128" by (simp add: b64_alphabet_def)
  then show ?thesis using b64_encode_alphabet [of bs] by (auto simp: list_all_iff)
qed

lemma std_encode_Nil [simp]: "std_encode [] = []"
  by (simp add: std_encode_def)

end
