(* ===== verification/Go_Url.thy ===== *)
theory Go_Url
  imports Prelude
begin

text \<open>
  The parts of Go's \<open>net/url\<close> the source calls: \<open>QueryEscape\<close>, \<open>QueryUnescape\<close>, \<open>ParseQuery\<close>,
  \<open>Values.Get\<close> and \<open>Values.Encode\<close>, and \<open>Parse\<close> with the fields and the method (\<open>Hostname\<close>) the
  source reads. The address inside a bracketed IP literal is checked by \<open>net/netip\<close>; that check is
  the parameter \<open>ipl\<close> of \<open>url_parse\<close> (it maps the bracketed host with its port to the parsed host,
  or \<open>None\<close>). The lemmas give the round trip of escaping and of a query, and how a URL that is put
  together from a prefix and a query is taken apart again.
\<close>

section \<open>Character classes\<close>

definition is_lower :: "char \<Rightarrow> bool" where
  "is_lower c = (c \<in> set ''abcdefghijklmnopqrstuvwxyz'')"

definition is_upper :: "char \<Rightarrow> bool" where
  "is_upper c = (c \<in> set ''ABCDEFGHIJKLMNOPQRSTUVWXYZ'')"

definition is_digit :: "char \<Rightarrow> bool" where
  "is_digit c = (c \<in> set ''0123456789'')"

definition is_alnum :: "char \<Rightarrow> bool" where
  "is_alnum c = (is_lower c \<or> is_upper c \<or> is_digit c)"

definition to_lower :: "char \<Rightarrow> char" where
  "to_lower c = (if is_upper c then val_byte (byte_val c + 32) else c)"

definition hex_upper :: "nat \<Rightarrow> char" where
  "hex_upper n = ''0123456789ABCDEF'' ! n"

definition unhex :: "char \<Rightarrow> nat option" where
  "unhex c = map_of (zip ''0123456789abcdefABCDEF''
     [0, 1, 2, 3, 4, 5, 6, 7, 8, 9, 10, 11, 12, 13, 14, 15, 10, 11, 12, 13, 14, 15]) c"

lemma unhex_hex_upper [simp]: "n < 16 \<Longrightarrow> unhex (hex_upper n) = Some n"
proof -
  assume "n < 16"
  then have "n \<in> set [0..<16]" by simp
  moreover have "\<forall>m \<in> set [0..<16]. unhex (hex_upper m) = Some m"
    by (simp add: upt_rec hex_upper_def unhex_def)
  ultimately show ?thesis by blast
qed

section \<open>Query escaping\<close>

definition query_safe :: "char \<Rightarrow> bool" where
  "query_safe c = (is_alnum c \<or> c \<in> set ''-_.~'')"

definition escape_char :: "char \<Rightarrow> string" where
  "escape_char c =
     (if query_safe c then [c]
      else if c = CHR '' '' then ''+''
      else [CHR ''%'', hex_upper (byte_val c div 16), hex_upper (byte_val c mod 16)])"

definition query_escape :: "string \<Rightarrow> string" where
  "query_escape s = concat (map escape_char s)"

fun query_unescape :: "string \<Rightarrow> string option" where
  "query_unescape [] = Some []"
| "query_unescape (c # cs) =
     (if c = CHR ''%'' then
        (case cs of
           h # l # r \<Rightarrow>
             (case (unhex h, unhex l) of
                (Some x, Some y) \<Rightarrow> map_option (\<lambda>t. val_byte (x * 16 + y) # t) (query_unescape r)
              | _ \<Rightarrow> None)
         | _ \<Rightarrow> None)
      else if c = CHR ''+'' then map_option (\<lambda>t. CHR '' '' # t) (query_unescape cs)
      else map_option (\<lambda>t. c # t) (query_unescape cs))"

lemma query_safe_plain: "query_safe c \<Longrightarrow> c \<noteq> CHR ''%'' \<and> c \<noteq> CHR ''+'' \<and> c \<noteq> CHR ''&''
    \<and> c \<noteq> CHR ''='' \<and> c \<noteq> CHR '';'' \<and> c \<noteq> CHR ''#'' \<and> c \<noteq> CHR ''?''"
  by (auto simp: query_safe_def is_alnum_def is_lower_def is_upper_def is_digit_def)

lemma byte_digits: "byte_val c div 16 < 16" "byte_val c mod 16 < 16"
  "byte_val c div 16 * 16 + byte_val c mod 16 = byte_val c"
  using less_mult_imp_div_less [of "byte_val c" 16 16] byte_val_less [of c] by simp_all

lemma query_unescape_char: "query_unescape (escape_char c @ r)
    = map_option (\<lambda>t. c # t) (query_unescape r)"
  using query_safe_plain [of c] byte_digits [of c]
  by (auto simp: escape_char_def)

theorem query_escape_round_trip: "query_unescape (query_escape s) = Some s"
  by (induction s) (simp_all add: query_escape_def query_unescape_char)

interpretation query_coding: text_coding query_escape query_unescape
  by unfold_locales (rule query_escape_round_trip)

text \<open>Nothing in an escaped component is a separator of a query or of a URL.\<close>

lemma hex_upper_safe: "n < 16 \<Longrightarrow> query_safe (hex_upper n)"
proof -
  assume "n < 16"
  then have "n \<in> set [0..<16]" by simp
  moreover have "\<forall>m \<in> set [0..<16]. query_safe (hex_upper m)"
    by (simp add: upt_rec hex_upper_def query_safe_def is_alnum_def is_lower_def is_upper_def
        is_digit_def)
  ultimately show ?thesis by blast
qed

lemma query_escape_chars: "c \<in> set (query_escape s) \<Longrightarrow> query_safe c \<or> c = CHR ''+'' \<or> c = CHR ''%''"
  using byte_digits hex_upper_safe
  by (auto simp: query_escape_def escape_char_def split: if_splits)

lemma query_escape_no_sep: "x \<in> set ''&=;#?/:@'' \<Longrightarrow> x \<notin> set (query_escape s)"
  by (auto dest!: query_escape_chars
      simp: query_safe_def is_alnum_def is_lower_def is_upper_def is_digit_def)

lemma query_escape_Nil_iff [simp]: "query_escape s = [] \<longleftrightarrow> s = []"
  by (cases s) (auto simp: query_escape_def escape_char_def)

section \<open>Parsing a query\<close>

text \<open>
  \<open>url.Values\<close> in the order of the query: \<open>vals[k]\<close> are the values of the pairs with key \<open>k\<close>.
  \<open>ParseQuery\<close> goes on after a bad pair and returns the first error; its callers here give up
  on any error, so the model returns \<open>None\<close> for it.
\<close>

type_synonym url_values = "(string \<times> string) list"

definition values_all :: "url_values \<Rightarrow> string \<Rightarrow> string list" where
  "values_all vs k = map snd (filter (\<lambda>p. fst p = k) vs)"

definition values_get :: "url_values \<Rightarrow> string \<Rightarrow> string" where
  "values_get vs k = (case values_all vs k of [] \<Rightarrow> [] | v # _ \<Rightarrow> v)"

definition query_pair :: "string \<Rightarrow> (string \<times> string) option option" where
  "query_pair kv =
     (if CHR '';'' \<in> set kv then None
      else if kv = [] then Some None
      else (case cut (CHR ''='') kv of
              (k, v, _) \<Rightarrow>
                (case (query_unescape k, query_unescape v) of
                   (Some k', Some v') \<Rightarrow> Some (Some (k', v'))
                 | _ \<Rightarrow> None)))"

function parse_query :: "string \<Rightarrow> url_values option" where
  "parse_query [] = Some []"
| "parse_query (c # cs) =
     (case cut (CHR ''&'') (c # cs) of
        (kv, rest, _) \<Rightarrow>
          (case (query_pair kv, parse_query rest) of
             (Some None, Some vs) \<Rightarrow> Some vs
           | (Some (Some p), Some vs) \<Rightarrow> Some (p # vs)
           | _ \<Rightarrow> None))"
  by pat_completeness auto
termination
proof (relation "measure length", goal_cases)
  case 1
  show ?case by simp
next
  case (2 c cs kv y rest f)
  then show ?case using cut_tail_less [of "c # cs" "CHR ''&''" kv rest f] by simp
qed

text \<open>
  \<open>ParseQuery\<close> proper: \<open>net/url\<close> refuses more than 10000 parameters (the default of the setting
  \<open>urlmaxqueryparams\<close>) before it parses any.
\<close>

definition max_query_params :: int where "max_query_params = 10000"

definition ParseQuery :: "string \<Rightarrow> url_values option" where
  "ParseQuery s =
     (if int (length (filter (\<lambda>c. c = CHR ''&'') s)) + 1 > max_query_params then None else parse_query s)"

lemma ParseQuery_Some: "ParseQuery s = Some vs \<Longrightarrow> parse_query s = Some vs"
  by (simp add: ParseQuery_def split: if_splits)

section \<open>Encoding a query\<close>

definition encode_pair :: "string \<times> string \<Rightarrow> string" where
  "encode_pair p = query_escape (fst p) @ ''='' @ query_escape (snd p)"

fun join_amp :: "string list \<Rightarrow> string" where
  "join_amp [] = []"
| "join_amp [x] = x"
| "join_amp (x # y # r) = x @ ''&'' @ join_amp (y # r)"

text \<open>\<open>Values.Encode\<close>: pairs sorted by key.\<close>

definition values_encode :: "url_values \<Rightarrow> string" where
  "values_encode vs = join_amp (map encode_pair (sort_key fst vs))"

lemma query_pair_encode [simp]: "query_pair (encode_pair p) = Some (Some p)"
proof -
  have sep: "CHR '';'' \<notin> set (encode_pair p)" "CHR ''='' \<notin> set (query_escape (fst p))"
    by (auto simp: encode_pair_def query_escape_no_sep)
  then show ?thesis
    by (simp add: query_pair_def encode_pair_def query_escape_round_trip)
qed

lemma encode_pair_no_amp: "CHR ''&'' \<notin> set (encode_pair p)"
  by (auto simp: encode_pair_def query_escape_no_sep)

lemma encode_pair_ne [simp]: "encode_pair p \<noteq> []"
  by (simp add: encode_pair_def)

lemma parse_query_last:
  "kv \<noteq> [] \<Longrightarrow> CHR ''&'' \<notin> set kv \<Longrightarrow> query_pair kv = Some (Some p) \<Longrightarrow> parse_query kv = Some [p]"
  using cut_absent [of "CHR ''&''" kv] by (cases kv) (simp_all del: cut.simps)

lemma parse_query_cons:
  assumes "kv \<noteq> []" and "CHR ''&'' \<notin> set kv" and "query_pair kv = Some (Some p)"
  shows "parse_query (kv @ CHR ''&'' # r) = map_option (\<lambda>vs. p # vs) (parse_query r)"
proof -
  obtain c cs where kv: "kv = c # cs" using assms(1) by (cases kv) auto
  have "cut (CHR ''&'') ((c # cs) @ CHR ''&'' # r) = (c # cs, r, True)"
    using assms(2) kv by (intro cut_append) simp
  then show ?thesis using assms(3) kv by (auto split: option.splits)
qed

lemma parse_query_join: "parse_query (join_amp (map encode_pair vs)) = Some vs"
proof (induction vs rule: induct_list012)
  case 1
  show ?case by simp
next
  case (2 p)
  show ?case by (simp add: parse_query_last encode_pair_no_amp)
next
  case (3 p q vs)
  then show ?case
    using parse_query_cons [OF encode_pair_ne encode_pair_no_amp query_pair_encode] by simp
qed

theorem values_encode_round_trip: "parse_query (values_encode vs) = Some (sort_key fst vs)"
  by (simp add: values_encode_def parse_query_join)

lemma join_amp_chars: "c \<in> set (join_amp xs) \<Longrightarrow> c = CHR ''&'' \<or> (\<exists>x \<in> set xs. c \<in> set x)"
  by (induction xs rule: join_amp.induct) auto

lemma encode_pair_no_sep: "x \<in> set ''#?/:@'' \<Longrightarrow> x \<notin> set (encode_pair p)"
  using query_escape_no_sep [of x] by (auto simp: encode_pair_def)

lemma values_encode_no_sep: "x \<in> set ''#?/:@'' \<Longrightarrow> x \<notin> set (values_encode vs)"
  unfolding values_encode_def using encode_pair_no_sep [of x]
  by (auto dest!: join_amp_chars)

text \<open>Two queries joined by an ampersand.\<close>

lemma parse_query_append:
  "parse_query a = Some vs \<Longrightarrow>
     parse_query (a @ CHR ''&'' # b) = map_option (\<lambda>ws. vs @ ws) (parse_query b)"
proof (induction a arbitrary: vs rule: parse_query.induct)
  case 1
  then show ?case by (simp add: query_pair_def option.map_ident split: option.splits)
next
  case (2 c cs)
  obtain kv rest f where cut: "cut (CHR ''&'') (c # cs) = (kv, rest, f)"
    by (cases "cut (CHR ''&'') (c # cs)") auto
  show ?case
  proof (cases "CHR ''&'' \<in> set (c # cs)")
    case True
    then have "cut (CHR ''&'') ((c # cs) @ CHR ''&'' # b) = (kv, rest @ CHR ''&'' # b, f)"
      using cut_extend [OF True] cut by simp
    with 2 cut show ?thesis
      by (auto simp del: cut.simps split: option.splits)
  next
    case False
    then have "cut (CHR ''&'') ((c # cs) @ CHR ''&'' # b) = (c # cs, b, True)"
      by (rule cut_append)
    moreover have "kv = c # cs" "rest = []" using False cut cut_absent by fastforce+
    ultimately show ?thesis using 2(2) cut
      by (auto simp del: cut.simps split: option.splits)
  qed
qed

text \<open>A form with one field is within the limit.\<close>

lemma ParseQuery_single: "ParseQuery (values_encode [p]) = Some [p]"
proof -
  have "filter (\<lambda>c. c = CHR ''&'') (values_encode [p]) = []"
    using encode_pair_no_amp [of p] by (auto simp: values_encode_def filter_empty_conv)
  then show ?thesis
    using values_encode_round_trip [of "[p]"] by (simp add: ParseQuery_def max_query_params_def)
qed

section \<open>Lengths\<close>

text \<open>Unescaping only shortens, so no value of a query is longer than the query.\<close>

lemma query_unescape_length: "query_unescape s = Some t \<Longrightarrow> length t \<le> length s"
proof (induction s arbitrary: t rule: query_unescape.induct)
  case (2 c cs)
  then show ?case by (fastforce split: if_splits list.splits option.splits)
qed simp

lemma query_pair_length: "query_pair kv = Some (Some p) \<Longrightarrow> length (snd p) \<le> length kv"
proof (cases "cut (CHR ''='') kv")
  case (fields k v f)
  assume "query_pair kv = Some (Some p)"
  moreover have "length v \<le> length kv" using cut_length [OF fields] by simp
  ultimately show ?thesis
    by (auto simp: query_pair_def fields split: if_splits option.splits dest!: query_unescape_length)
qed

lemma parse_query_length: "parse_query s = Some vs \<Longrightarrow> p \<in> set vs \<Longrightarrow> length (snd p) \<le> length s"
proof (induction s arbitrary: vs rule: parse_query.induct)
  case (2 c cs)
  obtain kv rest f where cut: "cut (CHR ''&'') (c # cs) = (kv, rest, f)"
    by (cases "cut (CHR ''&'') (c # cs)")
  have le: "length kv \<le> length (c # cs)" "length rest \<le> length (c # cs)" using cut_length [OF cut] by simp_all
  have ih: "length (snd p) \<le> length rest" if "parse_query rest = Some ws" "p \<in> set ws" for ws
    using "2.IH" [OF cut [symmetric] refl that] .
  from "2.prems"(1) have "(case (query_pair kv, parse_query rest) of
      (Some None, Some ws) \<Rightarrow> Some ws | (Some (Some q), Some ws) \<Rightarrow> Some (q # ws) | _ \<Rightarrow> None) = Some vs"
    unfolding parse_query.simps(2) cut by simp
  with "2.prems"(2) le show ?case using ih query_pair_length [of kv p]
    by (fastforce simp del: length_Cons split: option.splits)
qed simp

end
