(* ===== verification/Go_Url_Parse.thy ===== *)
theory Go_Url_Parse
  imports Go_Url
begin

text \<open>
  \<open>url.Parse\<close> and \<open>URL.Hostname\<close> of Go's \<open>net/url\<close>. \<open>ForceQuery\<close>, \<open>OmitHost\<close> and the raw forms of
  path and fragment are not read by the source and are left out; of \<open>User\<close> only its presence is
  kept. The lemmas take apart a URL that is a clean prefix followed by a query.
\<close>

section \<open>The parsed URL\<close>

record url =
  U_Scheme :: string
  U_Opaque :: string
  U_User :: bool
  U_Host :: string
  U_Path :: string
  U_RawQuery :: string
  U_Fragment :: string

definition empty_url :: url where
  "empty_url = \<lparr>U_Scheme = [], U_Opaque = [], U_User = False, U_Host = [], U_Path = [],
     U_RawQuery = [], U_Fragment = []\<rparr>"

section \<open>Unescaping by position\<close>

text \<open>Percent decoding of a path, a fragment or a user name: only a malformed escape fails.\<close>

fun percent_unescape :: "string \<Rightarrow> string option" where
  "percent_unescape [] = Some []"
| "percent_unescape (c # cs) =
     (if c = CHR ''%'' then
        (case cs of
           h # l # r \<Rightarrow>
             (case (unhex h, unhex l) of
                (Some x, Some y) \<Rightarrow> map_option (\<lambda>t. val_byte (x * 16 + y) # t) (percent_unescape r)
              | _ \<Rightarrow> None)
         | _ \<Rightarrow> None)
      else map_option (\<lambda>t. c # t) (percent_unescape cs))"

definition host_char :: "char \<Rightarrow> bool" where
  "host_char c = (is_alnum c \<or> c \<in> set ''!$&()*+,;=:[]<>-_.~'' \<or> c = CHR 0x22 \<or> c = CHR 0x27
     \<or> 128 \<le> byte_val c)"

text \<open>In a host only non-ASCII bytes and the percent sign itself may be escaped.\<close>

fun host_unescape :: "string \<Rightarrow> string option" where
  "host_unescape [] = Some []"
| "host_unescape (c # cs) =
     (if c = CHR ''%'' then
        (case cs of
           h # l # r \<Rightarrow>
             (case (unhex h, unhex l) of
                (Some x, Some y) \<Rightarrow>
                  (if x < 8 \<and> \<not> (h = CHR ''2'' \<and> l = CHR ''5'') then None
                   else map_option (\<lambda>t. val_byte (x * 16 + y) # t) (host_unescape r))
              | _ \<Rightarrow> None)
         | _ \<Rightarrow> None)
      else if host_char c then map_option (\<lambda>t. c # t) (host_unescape cs)
      else None)"

section \<open>Scheme, authority, host\<close>

fun scan_scheme :: "string \<Rightarrow> (string \<times> string) option" where
  "scan_scheme [] = None"
| "scan_scheme (c # cs) =
     (if c = CHR '':'' then Some ([], cs)
      else if is_alnum c \<or> c \<in> set ''+-.'' then map_option (\<lambda>(s, r). (c # s, r)) (scan_scheme cs)
      else None)"

definition get_scheme :: "string \<Rightarrow> (string \<times> string) option" where
  "get_scheme raw =
     (case raw of
        [] \<Rightarrow> Some ([], [])
      | c # cs \<Rightarrow>
          if c = CHR '':'' then None
          else if is_lower c \<or> is_upper c then
            (case scan_scheme raw of Some (s, r) \<Rightarrow> Some (s, r) | None \<Rightarrow> Some ([], raw))
          else Some ([], raw))"

definition valid_optional_port :: "string \<Rightarrow> bool" where
  "valid_optional_port p =
     (case p of [] \<Rightarrow> True | c # cs \<Rightarrow> c = CHR '':'' \<and> list_all is_digit cs)"

definition parse_host :: "(string \<Rightarrow> string option) \<Rightarrow> string \<Rightarrow> string option" where
  "parse_host ipl host =
     (if CHR ''['' \<in> set host then ipl host
      else if CHR '':'' \<in> set host
              \<and> \<not> valid_optional_port (dropWhile (\<lambda>c. c \<noteq> CHR '':'') host) then None
      else host_unescape host)"

definition userinfo_char :: "char \<Rightarrow> bool" where
  "userinfo_char c = (is_alnum c \<or> c \<in> set ''-._:~!$&()*+,;=%@'' \<or> c = CHR 0x27)"

definition parse_userinfo :: "string \<Rightarrow> unit option" where
  "parse_userinfo u =
     (if \<not> list_all userinfo_char u then None
      else (case cut (CHR '':'') u of
              (name, pw, _) \<Rightarrow>
                (case (percent_unescape name, percent_unescape pw) of
                   (Some _, Some _) \<Rightarrow> Some ()
                 | _ \<Rightarrow> None)))"

text \<open>The split at the last \<open>@\<close>: user information before it, host after it.\<close>

definition parse_authority :: "(string \<Rightarrow> string option) \<Rightarrow> string \<Rightarrow> (bool \<times> string) option" where
  "parse_authority ipl a =
     (if CHR ''@'' \<notin> set a then map_option (\<lambda>h. (False, h)) (parse_host ipl a)
      else
        (let h = rev (takeWhile (\<lambda>c. c \<noteq> CHR ''@'') (rev a));
             u = rev (tl (dropWhile (\<lambda>c. c \<noteq> CHR ''@'') (rev a)))
         in case (parse_host ipl h, parse_userinfo u) of
              (Some h', Some _) \<Rightarrow> Some (True, h')
            | _ \<Rightarrow> None))"

definition ctl_byte :: "char \<Rightarrow> bool" where
  "ctl_byte c = (byte_val c < 32 \<or> c = CHR 0x7F)"

section \<open>Parse\<close>

definition parse_rest :: "(string \<Rightarrow> string option) \<Rightarrow> string \<Rightarrow> string \<Rightarrow> string \<Rightarrow> url option" where
  "parse_rest ipl scheme rest query =
     (let u = empty_url\<lparr>U_Scheme := map to_lower scheme, U_RawQuery := query\<rparr> in
      if take 1 rest \<noteq> ''/'' \<and> scheme \<noteq> [] then Some (u\<lparr>U_Opaque := rest\<rparr>)
      else if take 1 rest \<noteq> ''/'' \<and> CHR '':'' \<in> set (fst (cut (CHR ''/'') rest)) then None
      else if (scheme \<noteq> [] \<or> take 3 rest \<noteq> ''///'') \<and> take 2 rest = ''//'' then
        (let a = takeWhile (\<lambda>c. c \<noteq> CHR ''/'') (drop 2 rest);
             p = dropWhile (\<lambda>c. c \<noteq> CHR ''/'') (drop 2 rest)
         in case parse_authority ipl a of
              None \<Rightarrow> None
            | Some (usr, h) \<Rightarrow>
                map_option (\<lambda>p'. u\<lparr>U_User := usr, U_Host := h, U_Path := p'\<rparr>) (percent_unescape p))
      else map_option (\<lambda>p'. u\<lparr>U_Path := p'\<rparr>) (percent_unescape rest))"

definition parse_nofrag :: "(string \<Rightarrow> string option) \<Rightarrow> string \<Rightarrow> url option" where
  "parse_nofrag ipl raw =
     (if list_ex ctl_byte raw then None
      else if raw = ''*'' then Some (empty_url\<lparr>U_Path := ''*''\<rparr>)
      else (case get_scheme raw of
              None \<Rightarrow> None
            | Some (scheme, r) \<Rightarrow>
                (case cut (CHR ''?'') r of
                   (rest, query, _) \<Rightarrow> parse_rest ipl scheme rest query)))"

definition url_parse :: "(string \<Rightarrow> string option) \<Rightarrow> string \<Rightarrow> url option" where
  "url_parse ipl raw =
     (case cut (CHR ''#'') raw of
        (u, frag, _) \<Rightarrow>
          (case parse_nofrag ipl u of
             None \<Rightarrow> None
           | Some r \<Rightarrow> map_option (\<lambda>f. r\<lparr>U_Fragment := f\<rparr>) (percent_unescape frag)))"

text \<open>\<open>URL.Hostname\<close>: the host without its port and without the brackets of an IP literal.\<close>

definition strip_port :: "string \<Rightarrow> string" where
  "strip_port hp =
     (if CHR '':'' \<in> set hp then
        (let port = CHR '':'' # rev (takeWhile (\<lambda>c. c \<noteq> CHR '':'') (rev hp)) in
         if valid_optional_port port then take (length hp - length port) hp else hp)
      else hp)"

definition url_hostname :: "url \<Rightarrow> string" where
  "url_hostname u =
     (let h = strip_port (U_Host u) in
      if h \<noteq> [] \<and> hd h = CHR ''['' \<and> last h = CHR '']'' then butlast (tl h) else h)"

section \<open>Taking a built URL apart\<close>

lemma url_parse_some_ne_ctl: "url_parse ipl raw = Some u \<Longrightarrow> CHR ''#'' \<notin> set raw
    \<Longrightarrow> \<not> list_ex ctl_byte raw"
  by (auto simp: url_parse_def parse_nofrag_def split: option.splits if_splits)

lemma scan_scheme_append:
  "scan_scheme raw = Some (s, r) \<Longrightarrow> scan_scheme (raw @ x) = Some (s, r @ x)"
  by (induction raw arbitrary: s) (auto split: if_splits)

lemma scan_scheme_set: "scan_scheme raw = Some (s, r) \<Longrightarrow> set r \<subseteq> set raw"
  by (induction raw arbitrary: s) (auto split: if_splits)

lemma get_scheme_Some_iff:
  "s \<noteq> [] \<Longrightarrow> get_scheme raw = Some (s, r) \<longleftrightarrow>
     raw \<noteq> [] \<and> (is_lower (hd raw) \<or> is_upper (hd raw)) \<and> hd raw \<noteq> CHR '':'' \<and> scan_scheme raw = Some (s, r)"
  by (cases raw) (simp_all add: get_scheme_def del: scan_scheme.simps split: option.split)

lemma get_scheme_append:
  "get_scheme raw = Some (s, r) \<Longrightarrow> s \<noteq> [] \<Longrightarrow> get_scheme (raw @ x) = Some (s, r @ x)"
  by (simp add: get_scheme_Some_iff scan_scheme_append)

lemma set_get_scheme:
  assumes "get_scheme raw = Some (s, r)"
  shows "set r \<subseteq> set raw"
proof -
  have "scan_scheme raw = Some (s, r) \<or> r = raw"
    using assms by (auto simp: get_scheme_def split: list.splits if_splits option.splits
        simp del: scan_scheme.simps)
  then show ?thesis using scan_scheme_set by blast
qed

lemma parse_rest_query:
  "parse_rest ipl s r q = Some u \<Longrightarrow> parse_rest ipl s r q' = Some (u\<lparr>U_RawQuery := q'\<rparr>)"
  by (auto simp: parse_rest_def Let_def empty_url_def split: if_splits option.splits prod.splits)

lemma parse_rest_scheme: "parse_rest ipl s r q = Some u \<Longrightarrow> U_Scheme u = map to_lower s"
  by (auto simp: parse_rest_def Let_def empty_url_def split: if_splits option.splits prod.splits)

text \<open>
  A clean prefix (no \<open>?\<close>, no \<open>#\<close>) that parses with a scheme, followed by \<open>?\<close> and a query without
  \<open>#\<close> and control bytes, parses to the same URL with that query.
\<close>

theorem url_parse_with_query:
  assumes base: "url_parse ipl raw = Some u" and sch: "U_Scheme u \<noteq> []"
    and clean: "CHR ''?'' \<notin> set raw" "CHR ''#'' \<notin> set raw"
    and q: "CHR ''#'' \<notin> set q" "\<not> list_ex ctl_byte q"
  shows "url_parse ipl (raw @ CHR ''?'' # q) = Some (u\<lparr>U_RawQuery := q\<rparr>)"
proof -
  from base clean(2) obtain u0 where u0: "parse_nofrag ipl raw = Some u0"
    and u: "u = u0\<lparr>U_Fragment := []\<rparr>"
    by (auto simp: url_parse_def split: option.splits)
  have star: "raw \<noteq> ''*''"
    using u0 u sch by (auto simp: parse_nofrag_def empty_url_def split: if_splits)
  from u0 star obtain s r where g: "get_scheme raw = Some (s, r)"
    and ctl: "\<not> list_ex ctl_byte raw"
    by (auto simp: parse_nofrag_def split: if_splits option.splits)
  have nq: "CHR ''?'' \<notin> set r" using set_get_scheme [OF g] clean(1) by auto
  then have pr: "parse_rest ipl s r [] = Some u0"
    using u0 star g ctl by (simp add: parse_nofrag_def)
  have s: "s \<noteq> []" using parse_rest_scheme [OF pr] u sch by auto
  have ns: "raw @ CHR ''?'' # q \<noteq> ''*''" by (cases raw) auto
  have "parse_nofrag ipl (raw @ CHR ''?'' # q) = Some (u0\<lparr>U_RawQuery := q\<rparr>)"
    using get_scheme_append [OF g s, of "CHR ''?'' # q"] ctl q(2) nq ns
      parse_rest_query [OF pr, of q]
    by (simp add: parse_nofrag_def ctl_byte_def)
  then show ?thesis using clean(2) q(1) u by (simp add: url_parse_def)
qed

lemma query_char_not_ctl: "query_safe c \<or> c = CHR ''+'' \<or> c = CHR ''%'' \<Longrightarrow> \<not> ctl_byte c"
  by (auto simp: query_safe_def is_alnum_def is_lower_def is_upper_def is_digit_def ctl_byte_def)

lemma query_escape_not_ctl: "c \<in> set (query_escape s) \<Longrightarrow> \<not> ctl_byte c"
  by (rule query_char_not_ctl) (rule query_escape_chars)

lemma encode_pair_not_ctl: "c \<in> set (encode_pair p) \<Longrightarrow> \<not> ctl_byte c"
proof -
  have "\<not> ctl_byte (CHR ''='')" by (simp add: ctl_byte_def)
  then show "c \<in> set (encode_pair p) \<Longrightarrow> \<not> ctl_byte c"
    using query_escape_not_ctl by (auto simp: encode_pair_def)
qed

lemma values_encode_not_ctl: "\<not> list_ex ctl_byte (values_encode vs)"
proof -
  have "\<not> ctl_byte (CHR ''&'')" by (simp add: ctl_byte_def)
  then show ?thesis
    using encode_pair_not_ctl
    by (fastforce simp: values_encode_def list_ex_iff dest!: join_amp_chars)
qed

section \<open>Extending a query\<close>

lemma scan_scheme_split: "scan_scheme raw = Some (s, r) \<Longrightarrow> raw = s @ CHR '':'' # r \<and> CHR ''?'' \<notin> set s"
proof -
  have "\<not> is_alnum (CHR ''?'')"
    by (simp add: is_alnum_def is_lower_def is_upper_def is_digit_def)
  then show "scan_scheme raw = Some (s, r) \<Longrightarrow> raw = s @ CHR '':'' # r \<and> CHR ''?'' \<notin> set s"
    by (induction raw arbitrary: s) (auto split: if_splits)
qed

text \<open>A URL that has a query already, extended by bytes that are not a number sign or control bytes.\<close>

lemma url_parse_extend_query:
  assumes base: "url_parse ipl raw = Some u" and sch: "U_Scheme u \<noteq> []"
    and mark: "CHR ''?'' \<in> set raw" "CHR ''#'' \<notin> set raw"
    and q: "CHR ''#'' \<notin> set q" "\<not> list_ex ctl_byte q"
  shows "url_parse ipl (raw @ q) = Some (u\<lparr>U_RawQuery := U_RawQuery u @ q\<rparr>)"
proof -
  from base mark(2) obtain u0 where u0: "parse_nofrag ipl raw = Some u0"
    and u: "u = u0\<lparr>U_Fragment := []\<rparr>"
    by (auto simp: url_parse_def split: option.splits)
  have star: "raw \<noteq> ''*''" using mark(1) by auto
  from u0 star obtain s r where g: "get_scheme raw = Some (s, r)" and ctl: "\<not> list_ex ctl_byte raw"
    by (auto simp: parse_nofrag_def split: if_splits option.splits)
  obtain rest query f where cut: "cut (CHR ''?'') r = (rest, query, f)"
    by (cases "cut (CHR ''?'') r") auto
  have pr: "parse_rest ipl s rest query = Some u0"
    using u0 star g ctl cut by (simp add: parse_nofrag_def)
  have s: "s \<noteq> []" using parse_rest_scheme [OF pr] u sch by auto
  then have "scan_scheme raw = Some (s, r)" using g by (simp add: get_scheme_Some_iff)
  then have "CHR ''?'' \<in> set r" using mark(1) scan_scheme_split by fastforce
  then have "cut (CHR ''?'') (r @ q) = (rest, query @ q, f)" using cut by (simp add: cut_extend)
  moreover have "raw @ q \<noteq> ''*''" using mark(1) by (cases raw) auto
  ultimately have "parse_nofrag ipl (raw @ q) = Some (u0\<lparr>U_RawQuery := query @ q\<rparr>)"
    using get_scheme_append [OF g s, of q] ctl q(2) parse_rest_query [OF pr, of "query @ q"]
    by (simp add: parse_nofrag_def)
  moreover have "U_RawQuery u0 = query"
    using pr by (auto simp: parse_rest_def Let_def empty_url_def split: if_splits option.splits prod.splits)
  ultimately show ?thesis using mark(2) q(1) u by (simp add: url_parse_def)
qed

lemma url_parse_no_query:
  assumes "url_parse ipl raw = Some u" and "CHR ''?'' \<notin> set raw" and "CHR ''#'' \<notin> set raw"
  shows "U_RawQuery u = []"
proof -
  from assms(1,3) obtain u0 where u0: "parse_nofrag ipl raw = Some u0" "U_RawQuery u = U_RawQuery u0"
    by (auto simp: url_parse_def split: option.splits)
  show ?thesis
  proof (cases "raw = ''*''")
    case True
    with u0 show ?thesis by (auto simp: parse_nofrag_def empty_url_def split: if_splits)
  next
    case False
    with u0(1) obtain s r where g: "get_scheme raw = Some (s, r)" and
        pr: "(case cut (CHR ''?'') r of (rest, query, _) \<Rightarrow> parse_rest ipl s rest query) = Some u0"
      by (auto simp: parse_nofrag_def split: if_splits option.splits)
    have "CHR ''?'' \<notin> set r" using set_get_scheme [OF g] assms(2) by auto
    with pr have "parse_rest ipl s r [] = Some u0" by simp
    then show ?thesis using u0(2)
      by (auto simp: parse_rest_def Let_def empty_url_def split: if_splits option.splits prod.splits)
  qed
qed

text \<open>What is appended to a URL with a fragment ends up in the fragment.\<close>

lemma percent_unescape_append:
  "percent_unescape xs = Some a \<Longrightarrow> percent_unescape ys = Some b \<Longrightarrow> percent_unescape (xs @ ys) = Some (a @ b)"
  by (induction xs arbitrary: a rule: percent_unescape.induct)
    (auto split: if_splits list.splits option.splits)

lemma url_parse_extend_fragment:
  assumes "url_parse ipl raw = Some u" and "CHR ''#'' \<in> set raw" and "percent_unescape x = Some y"
  shows "url_parse ipl (raw @ x) = Some (u\<lparr>U_Fragment := U_Fragment u @ y\<rparr>)"
proof -
  obtain a frag f where cut: "cut (CHR ''#'') raw = (a, frag, f)"
    by (cases "cut (CHR ''#'') raw") auto
  with assms(1) obtain r fr where "parse_nofrag ipl a = Some r" "percent_unescape frag = Some fr"
      "u = r\<lparr>U_Fragment := fr\<rparr>"
    by (auto simp: url_parse_def split: option.splits)
  then show ?thesis using assms(2) cut percent_unescape_append [OF _ assms(3), of frag fr]
    by (simp add: url_parse_def cut_extend)
qed

end
