(* ===== verification/Go_Json.thy ===== *)
theory Go_Json
  imports Go_Url
begin

text \<open>
  The parts of Go's \<open>encoding/json\<close> the source uses: the value syntax as \<open>Decoder.Decode\<close> reads it
  off the front of a byte sequence, \<open>Decoder.More\<close>, the decoding of a value into the Go types the
  source decodes into (a struct with string and map members, a map of raw messages, a slice of
  strings), and \<open>Marshal\<close>. A \<open>json.RawMessage\<close> is kept as the value its bytes spell. Fuel bounds the
  recursion of the parser; \<open>pvalue_fuel\<close> shows that the fuel chosen by \<open>json_prefix\<close> is enough.
\<close>

section \<open>Values\<close>

datatype jvalue =
    JNull
  | JBool bool
  | JNum string
  | JStr bytes
  | JArr "jvalue list"
  | JObj "(bytes \<times> jvalue) list"

abbreviation dquote :: char where "dquote \<equiv> CHR 0x22"
abbreviation bslash :: char where "bslash \<equiv> CHR 0x5C"

definition json_ws :: "char \<Rightarrow> bool" where
  "json_ws c = (c = CHR '' '' \<or> c = CHR 0x09 \<or> c = CHR 0x0A \<or> c = CHR 0x0D)"

definition skip_ws :: "bytes \<Rightarrow> bytes" where
  "skip_ws s = dropWhile json_ws s"

section \<open>UTF-8\<close>

definition utf8_cont :: "char \<Rightarrow> bool" where
  "utf8_cont c = (128 \<le> byte_val c \<and> byte_val c < 192)"

text \<open>The length of the valid encoding at the front, 0 if there is none (\<open>utf8.DecodeRune\<close>).\<close>

fun utf8_len :: "bytes \<Rightarrow> nat" where
  "utf8_len [] = 0"
| "utf8_len (a # r) =
     (let v = byte_val a in
      if v < 128 then 1
      else if v < 194 then 0
      else if v < 224 then (case r of b # _ \<Rightarrow> if utf8_cont b then 2 else 0 | _ \<Rightarrow> 0)
      else if v < 240 then
        (case r of
           b # c # _ \<Rightarrow>
             if (if v = 224 then 160 \<le> byte_val b \<and> byte_val b < 192
                 else if v = 237 then 128 \<le> byte_val b \<and> byte_val b < 160
                 else utf8_cont b) \<and> utf8_cont c then 3 else 0
         | _ \<Rightarrow> 0)
      else if v < 245 then
        (case r of
           b # c # d # _ \<Rightarrow>
             if (if v = 240 then 144 \<le> byte_val b \<and> byte_val b < 192
                 else if v = 244 then 128 \<le> byte_val b \<and> byte_val b < 144
                 else utf8_cont b) \<and> utf8_cont c \<and> utf8_cont d then 4 else 0
         | _ \<Rightarrow> 0)
      else 0)"

definition utf8_encode :: "nat \<Rightarrow> bytes" where
  "utf8_encode n =
     (if n < 128 then [val_byte n]
      else if n < 2048 then [val_byte (192 + n div 64), val_byte (128 + n mod 64)]
      else if n < 65536 then
        [val_byte (224 + n div 4096), val_byte (128 + n div 64 mod 64), val_byte (128 + n mod 64)]
      else [val_byte (240 + n div 262144), val_byte (128 + n div 4096 mod 64),
            val_byte (128 + n div 64 mod 64), val_byte (128 + n mod 64)])"

definition replacement :: bytes where
  "replacement = [CHR 0xEF, CHR 0xBF, CHR 0xBD]"

section \<open>Strings\<close>

definition hex4 :: "char \<Rightarrow> char \<Rightarrow> char \<Rightarrow> char \<Rightarrow> nat option" where
  "hex4 a b c d =
     (case (unhex a, unhex b, unhex c, unhex d) of
        (Some w, Some x, Some y, Some z) \<Rightarrow> Some (w * 4096 + x * 256 + y * 16 + z)
      | _ \<Rightarrow> None)"

definition plain_escape :: "char \<Rightarrow> bool" where
  "plain_escape e = (e \<in> set ''bfnrt/'' \<or> e = bslash \<or> e = dquote)"

text \<open>What is between the quotes, unchanged, and what follows the closing quote.\<close>

fun lex_string :: "bytes \<Rightarrow> (bytes \<times> bytes) option" where
  "lex_string [] = None"
| "lex_string (c # cs) =
     (if c = dquote then Some ([], cs)
      else if c = bslash then
        (case cs of
           [] \<Rightarrow> None
         | e # r \<Rightarrow>
             if plain_escape e then
               map_option (\<lambda>(s, t). (c # e # s, t)) (lex_string r)
             else if e = CHR ''u'' then
               (case r of
                  h1 # h2 # h3 # h4 # r' \<Rightarrow>
                    (if hex4 h1 h2 h3 h4 = None then None
                     else map_option (\<lambda>(s, t). (c # e # h1 # h2 # h3 # h4 # s, t)) (lex_string r'))
                | _ \<Rightarrow> None)
             else None)
      else if byte_val c < 32 then None
      else map_option (\<lambda>(s, t). (c # s, t)) (lex_string cs))"

definition simple_escape :: "char \<Rightarrow> char" where
  "simple_escape e =
     (if e = CHR ''b'' then CHR 0x08 else if e = CHR ''f'' then CHR 0x0C
      else if e = CHR ''n'' then CHR 0x0A else if e = CHR ''r'' then CHR 0x0D
      else if e = CHR ''t'' then CHR 0x09 else e)"

text \<open>
  A surrogate escape that is not followed by its other half, and a byte that starts no valid
  encoding, become the replacement character.
\<close>

fun low_surrogate :: "bytes \<Rightarrow> (nat \<times> bytes) option" where
  "low_surrogate (b # u # h1 # h2 # h3 # h4 # t) =
     (if b = bslash \<and> u = CHR ''u'' then
        (case hex4 h1 h2 h3 h4 of
           Some n \<Rightarrow> if 56320 \<le> n \<and> n < 57344 then Some (n, t) else None
         | None \<Rightarrow> None)
      else None)"
| "low_surrogate _ = None"

lemma low_surrogate_length: "low_surrogate s = Some (n, t) \<Longrightarrow> length t < length s"
  by (cases s rule: low_surrogate.cases) (auto split: if_splits option.splits)

function unquote :: "bytes \<Rightarrow> bytes" where
  "unquote [] = []"
| "unquote (c # cs) =
     (if c = bslash then
        (case cs of
           [] \<Rightarrow> []
         | e # r \<Rightarrow>
             if e = CHR ''u'' then
               (case r of
                  h1 # h2 # h3 # h4 # t \<Rightarrow>
                    (case hex4 h1 h2 h3 h4 of
                       None \<Rightarrow> []
                     | Some n \<Rightarrow>
                         if 55296 \<le> n \<and> n < 57344 then
                           (case low_surrogate t of
                              Some (m, t') \<Rightarrow>
                                if n < 56320 then
                                  utf8_encode (65536 + (n - 55296) * 1024 + (m - 56320)) @ unquote t'
                                else replacement @ unquote t
                            | None \<Rightarrow> replacement @ unquote t)
                         else utf8_encode n @ unquote t)
                | _ \<Rightarrow> [])
             else simple_escape e # unquote r)
      else if byte_val c < 128 then c # unquote cs
      else
        (let k = utf8_len (c # cs) in
         if k = 0 then replacement @ unquote cs
         else c # take (k - 1) cs @ unquote (drop (k - 1) cs)))"
  by pat_completeness auto
termination
  by (relation "measure length") (auto dest: low_surrogate_length)

section \<open>Numbers\<close>

definition lex_int :: "bytes \<Rightarrow> (bytes \<times> bytes) option" where
  "lex_int s =
     (case s of
        [] \<Rightarrow> None
      | c # r \<Rightarrow>
          if c = CHR ''0'' then Some ([c], r)
          else if is_digit c then Some (takeWhile is_digit s, dropWhile is_digit s)
          else None)"

definition lex_frac :: "bytes \<Rightarrow> (bytes \<times> bytes) option" where
  "lex_frac s =
     (case s of
        [] \<Rightarrow> Some ([], [])
      | c # r \<Rightarrow>
          if c = CHR ''.'' then
            (if takeWhile is_digit r = [] then None
             else Some (c # takeWhile is_digit r, dropWhile is_digit r))
          else Some ([], s))"

definition lex_exp :: "bytes \<Rightarrow> (bytes \<times> bytes) option" where
  "lex_exp s =
     (case s of
        [] \<Rightarrow> Some ([], [])
      | c # r \<Rightarrow>
          if c = CHR ''e'' \<or> c = CHR ''E'' then
            (let sg = (case r of x # _ \<Rightarrow> if x = CHR ''+'' \<or> x = CHR ''-'' then [x] else [] | [] \<Rightarrow> []);
                 t = drop (length sg) r
             in if takeWhile is_digit t = [] then None
                else Some (c # sg @ takeWhile is_digit t, dropWhile is_digit t))
          else Some ([], s))"

definition lex_number :: "bytes \<Rightarrow> (bytes \<times> bytes) option" where
  "lex_number s =
     (let sg = (case s of x # _ \<Rightarrow> if x = CHR ''-'' then [x] else [] | [] \<Rightarrow> []) in
      case lex_int (drop (length sg) s) of
        None \<Rightarrow> None
      | Some (i, r1) \<Rightarrow>
          (case lex_frac r1 of
             None \<Rightarrow> None
           | Some (f, r2) \<Rightarrow>
               (case lex_exp r2 of
                  None \<Rightarrow> None
                | Some (e, r3) \<Rightarrow> Some (sg @ i @ f @ e, r3))))"

section \<open>The value at the front\<close>

text \<open>\<open>maxNestingDepth\<close> of the scanner.\<close>

definition max_nesting :: int where
  "max_nesting = 10000"

fun pvalue :: "nat \<Rightarrow> int \<Rightarrow> bytes \<Rightarrow> (jvalue \<times> bytes) option"
  and pelems :: "nat \<Rightarrow> int \<Rightarrow> bytes \<Rightarrow> (jvalue list \<times> bytes) option"
  and pmembers :: "nat \<Rightarrow> int \<Rightarrow> bytes \<Rightarrow> ((bytes \<times> jvalue) list \<times> bytes) option"
where
  "pvalue 0 d s = None"
| "pvalue (Suc f) d s =
     (case skip_ws s of
        [] \<Rightarrow> None
      | c # cs \<Rightarrow>
          if c = CHR ''{'' then
            (if max_nesting \<le> d then None
             else (case skip_ws cs of
                     [] \<Rightarrow> None
                   | x # r \<Rightarrow>
                       if x = CHR ''}'' then Some (JObj [], r)
                       else map_option (\<lambda>(ms, t). (JObj ms, t)) (pmembers f (d + 1) cs)))
          else if c = CHR ''['' then
            (if max_nesting \<le> d then None
             else (case skip_ws cs of
                     [] \<Rightarrow> None
                   | x # r \<Rightarrow>
                       if x = CHR '']'' then Some (JArr [], r)
                       else map_option (\<lambda>(vs, t). (JArr vs, t)) (pelems f (d + 1) cs)))
          else if c = dquote then map_option (\<lambda>(q, t). (JStr (unquote q), t)) (lex_string cs)
          else if c = CHR ''t'' then
            (if take 3 cs = ''rue'' then Some (JBool True, drop 3 cs) else None)
          else if c = CHR ''f'' then
            (if take 4 cs = ''alse'' then Some (JBool False, drop 4 cs) else None)
          else if c = CHR ''n'' then
            (if take 3 cs = ''ull'' then Some (JNull, drop 3 cs) else None)
          else map_option (\<lambda>(n, t). (JNum n, t)) (lex_number (c # cs)))"
| "pelems 0 d s = None"
| "pelems (Suc f) d s =
     (case pvalue f d s of
        None \<Rightarrow> None
      | Some (v, r) \<Rightarrow>
          (case skip_ws r of
             [] \<Rightarrow> None
           | x # r' \<Rightarrow>
               if x = CHR '','' then map_option (\<lambda>(vs, t). (v # vs, t)) (pelems f d r')
               else if x = CHR '']'' then Some ([v], r')
               else None))"
| "pmembers 0 d s = None"
| "pmembers (Suc f) d s =
     (case skip_ws s of
        [] \<Rightarrow> None
      | q # qs \<Rightarrow>
          if q \<noteq> dquote then None
          else
            (case lex_string qs of
               None \<Rightarrow> None
             | Some (k, r) \<Rightarrow>
                 (case skip_ws r of
                    [] \<Rightarrow> None
                  | x # r' \<Rightarrow>
                      if x \<noteq> CHR '':'' then None
                      else
                        (case pvalue f d r' of
                           None \<Rightarrow> None
                         | Some (v, t) \<Rightarrow>
                             (case skip_ws t of
                                [] \<Rightarrow> None
                              | y # t' \<Rightarrow>
                                  if y = CHR '','' then
                                    map_option (\<lambda>(ms, u). ((unquote k, v) # ms, u)) (pmembers f d t')
                                  else if y = CHR ''}'' then Some ([(unquote k, v)], t')
                                  else None)))))"

text \<open>\<open>Decoder.Decode\<close> reads one value off the front and leaves the rest unread.\<close>

definition json_prefix :: "bytes \<Rightarrow> (jvalue \<times> bytes) option" where
  "json_prefix s = pvalue (2 * length s + 2) 0 s"

text \<open>\<open>Decoder.More\<close>: another element follows; a closing bracket or brace does not count as one.\<close>

definition json_more :: "bytes \<Rightarrow> bool" where
  "json_more rest =
     (case skip_ws rest of [] \<Rightarrow> False | c # _ \<Rightarrow> c \<noteq> CHR '']'' \<and> c \<noteq> CHR ''}'')"

section \<open>Decoding into Go types\<close>

text \<open>
  \<open>foldName\<close>: the key of the case-insensitive match of member names, exact for names in ASCII. The
  long s (U+017F) and the Kelvin sign (U+212A) fold to ASCII letters.
\<close>

fun fold_name :: "bytes \<Rightarrow> bytes" where
  "fold_name [] = []"
| "fold_name (c # cs) =
     (if c = CHR 0xC5 \<and> take 1 cs = [CHR 0xBF] then CHR ''S'' # fold_name (drop 1 cs)
      else if c = CHR 0xE2 \<and> take 2 cs = [CHR 0x84, CHR 0xAA] then CHR ''K'' # fold_name (drop 2 cs)
      else (if is_lower c then val_byte (byte_val c - 32) else c) # fold_name cs)"

definition field_match :: "bytes \<Rightarrow> string \<Rightarrow> bool" where
  "field_match k name = (fold_name k = fold_name name)"

text \<open>Into a \<open>string\<close>: \<open>null\<close> leaves it as it is, any other kind is an \<open>UnmarshalTypeError\<close>.\<close>

definition into_string :: "jvalue \<Rightarrow> bytes \<Rightarrow> bytes option" where
  "into_string v cur = (case v of JStr s \<Rightarrow> Some s | JNull \<Rightarrow> Some cur | _ \<Rightarrow> None)"

text \<open>Into a \<open>[]string\<close>.\<close>

definition into_strings :: "jvalue \<Rightarrow> bytes list option" where
  "into_strings v =
     (case v of
        JNull \<Rightarrow> Some []
      | JArr vs \<Rightarrow> those (map (\<lambda>x. into_string x []) vs)
      | _ \<Rightarrow> None)"

text \<open>
  Into a \<open>map[string]json.RawMessage\<close>; \<open>None\<close> inside is the nil map. Members are added to the map
  that is already there, a repeated name overwrites.
\<close>

type_synonym raw_map = "(bytes \<times> jvalue) list"

definition into_raw_map :: "jvalue \<Rightarrow> raw_map option \<Rightarrow> raw_map option option" where
  "into_raw_map v cur =
     (case v of
        JNull \<Rightarrow> Some None
      | JObj ms \<Rightarrow>
          Some (Some (fold (\<lambda>(k, x) m. AList.update k x m) ms (case cur of None \<Rightarrow> [] | Some m \<Rightarrow> m)))
      | _ \<Rightarrow> None)"

section \<open>Marshal\<close>

definition hex_lower :: "nat \<Rightarrow> char" where
  "hex_lower n = ''0123456789abcdef'' ! n"

text \<open>String escaping of \<open>Marshal\<close>, HTML characters included.\<close>

definition escape_ascii :: "char \<Rightarrow> bytes" where
  "escape_ascii c =
     (if c = dquote \<or> c = bslash then [bslash, c]
      else if c = CHR 0x08 then [bslash, CHR ''b'']
      else if c = CHR 0x0C then [bslash, CHR ''f'']
      else if c = CHR 0x0A then [bslash, CHR ''n'']
      else if c = CHR 0x0D then [bslash, CHR ''r'']
      else if c = CHR 0x09 then [bslash, CHR ''t'']
      else if byte_val c < 32 \<or> c = CHR ''<'' \<or> c = CHR ''>'' \<or> c = CHR ''&'' then
        [bslash, CHR ''u'', CHR ''0'', CHR ''0'', hex_lower (byte_val c div 16), hex_lower (byte_val c mod 16)]
      else [c])"

function escape_string :: "bytes \<Rightarrow> bytes" where
  "escape_string [] = []"
| "escape_string (c # cs) =
     (if byte_val c < 128 then escape_ascii c @ escape_string cs
      else
        (let k = utf8_len (c # cs) in
         if k = 0 then bslash # ''ufffd'' @ escape_string cs
         else if c = CHR 0xE2 \<and> take 2 cs = [CHR 0x80, CHR 0xA8] then
           bslash # ''u2028'' @ escape_string (drop 2 cs)
         else if c = CHR 0xE2 \<and> take 2 cs = [CHR 0x80, CHR 0xA9] then
           bslash # ''u2029'' @ escape_string (drop 2 cs)
         else c # take (k - 1) cs @ escape_string (drop (k - 1) cs)))"
  by pat_completeness auto
termination
  by (relation "measure length") auto

fun join_comma :: "bytes list \<Rightarrow> bytes" where
  "join_comma [] = []"
| "join_comma [x] = x"
| "join_comma (x # y # r) = x @ '','' @ join_comma (y # r)"

definition print_string :: "bytes \<Rightarrow> bytes" where
  "print_string s = dquote # escape_string s @ [dquote]"

fun json_print :: "jvalue \<Rightarrow> bytes" where
  "json_print JNull = ''null''"
| "json_print (JBool b) = (if b then ''true'' else ''false'')"
| "json_print (JNum n) = n"
| "json_print (JStr s) = print_string s"
| "json_print (JArr vs) = ''['' @ join_comma (map json_print vs) @ '']''"
| "json_print (JObj ms) =
     ''{'' @ join_comma (map (\<lambda>(k, v). print_string k @ '':'' @ json_print v) ms) @ ''}''"

text \<open>The decimal text of an integer.\<close>

fun nat_dec :: "nat \<Rightarrow> string" where
  "nat_dec n =
     (if n < 10 then [''0123456789'' ! n] else nat_dec (n div 10) @ [''0123456789'' ! (n mod 10)])"

declare nat_dec.simps [simp del]

definition int_dec :: "int \<Rightarrow> string" where
  "int_dec i = (if i < 0 then CHR ''-'' # nat_dec (nat (- i)) else nat_dec (nat i))"

text \<open>The same digits by division of integers, for evaluation.\<close>

function int_digits :: "int \<Rightarrow> string" where
  "int_digits i =
     (if i < 10 then [''0123456789'' ! nat i]
      else int_digits (i div 10) @ [''0123456789'' ! nat (i mod 10)])"
  by pat_completeness auto
termination
  by (relation "measure nat") auto

declare int_digits.simps [simp del]

lemma int_digits_nat_dec: "0 \<le> i \<Longrightarrow> int_digits i = nat_dec (nat i)"
proof (induction i rule: int_digits.induct)
  case (1 i)
  then show ?case
    by (subst int_digits.simps, subst nat_dec.simps)
      (auto simp: nat_div_distrib nat_mod_distrib nat_less_iff)
qed

lemma int_dec_code [code]: "int_dec i = (if i < 0 then CHR ''-'' # int_digits (- i) else int_digits i)"
  by (simp add: int_dec_def int_digits_nat_dec)

text \<open>A Go map is marshalled with its keys in order.\<close>

definition json_map :: "(bytes \<times> jvalue) list \<Rightarrow> jvalue" where
  "json_map ms = JObj (sort_key fst ms)"

section \<open>Enough fuel\<close>

lemma skip_ws_length: "length (skip_ws s) \<le> length s"
  by (simp add: skip_ws_def length_dropWhile_le)

lemma skip_ws_Cons_length: "skip_ws s = c # cs \<Longrightarrow> length cs < length s"
  using skip_ws_length [of s] by simp

lemma lex_string_length: "lex_string s = Some (q, t) \<Longrightarrow> length t < length s"
proof (induction "length s" arbitrary: s q t rule: less_induct)
  case less
  show ?case
  proof (cases s)
    case Nil
    with less.prems show ?thesis by simp
  next
    case (Cons c cs)
    have ih: "length u < length x" if "lex_string x = Some (p, u)" "length x < length s" for x p u
      using less.hyps that by blast
    show ?thesis using less.prems Cons
      by (auto split: if_splits list.splits option.splits dest!: ih)
  qed
qed

lemma lex_int_length: "lex_int s = Some (a, r) \<Longrightarrow> length r < length s"
  using length_dropWhile_le [of is_digit "tl s"]
  by (auto simp: lex_int_def less_Suc_eq_le split: list.splits if_splits)

lemma lex_frac_length: "lex_frac s = Some (a, r) \<Longrightarrow> length r \<le> length s"
  using length_dropWhile_le [of is_digit "tl s"]
  by (auto simp: lex_frac_def le_SucI split: list.splits if_splits)

lemma lex_exp_length: "lex_exp s = Some (a, r) \<Longrightarrow> length r \<le> length s"
  using length_dropWhile_le [of is_digit "drop 1 s"] length_dropWhile_le [of is_digit "drop 2 s"]
  by (fastforce simp: lex_exp_def Let_def split: list.splits if_splits)

lemma lex_number_length: "lex_number s = Some (a, r) \<Longrightarrow> length r < length s"
  by (fastforce simp: lex_number_def Let_def split: option.splits if_splits
      dest: lex_int_length lex_frac_length lex_exp_length)

lemma parser_consumes:
  "(\<forall>d s v r. pvalue f d s = Some (v, r) \<longrightarrow> length r < length s)
   \<and> (\<forall>d s vs r. pelems f d s = Some (vs, r) \<longrightarrow> length r < length s)
   \<and> (\<forall>d s ms r. pmembers f d s = Some (ms, r) \<longrightarrow> length r < length s)"
proof (induction f)
  case 0
  show ?case by simp
next
  case (Suc f)
  have v: "length r < length s" if "pvalue f d s = Some (x, r)" for d s x r
    using Suc that by blast
  have e: "length r < length s" if "pelems f d s = Some (x, r)" for d s x r
    using Suc that by blast
  have m: "length r < length s" if "pmembers f d s = Some (x, r)" for d s x r
    using Suc that by blast
  have "length r < length s" if "pvalue (Suc f) d s = Some (x, r)" for d s x r
    using that by (auto dest!: skip_ws_Cons_length lex_string_length lex_number_length e m
        split: list.splits if_splits)
  moreover have "length r < length s" if "pelems (Suc f) d s = Some (x, r)" for d s x r
    using that by (auto dest!: skip_ws_Cons_length v e split: list.splits if_splits option.splits)
  moreover have "length r < length s" if "pmembers (Suc f) d s = Some (x, r)" for d s x r
    using that by (auto dest!: skip_ws_Cons_length lex_string_length v m
        split: list.splits if_splits option.splits)
  ultimately show ?case by blast
qed

lemma pvalue_length: "pvalue f d s = Some (v, r) \<Longrightarrow> length r < length s"
  using parser_consumes by blast

lemma parser_fuel:
  "(\<forall>g d s. 2 * length s + 1 \<le> f \<longrightarrow> f \<le> g \<longrightarrow> pvalue g d s = pvalue f d s)
   \<and> (\<forall>g d s. 2 * length s + 2 \<le> f \<longrightarrow> f \<le> g \<longrightarrow> pelems g d s = pelems f d s)
   \<and> (\<forall>g d s. 2 * length s + 1 \<le> f \<longrightarrow> f \<le> g \<longrightarrow> pmembers g d s = pmembers f d s)"
proof (induction f)
  case 0
  show ?case by simp
next
  case (Suc f)
  have v: "pvalue g d s = pvalue f d s" if "2 * length s + 1 \<le> f" "f \<le> g" for g d s
    using Suc that by blast
  have e: "pelems g d s = pelems f d s" if "2 * length s + 2 \<le> f" "f \<le> g" for g d s
    using Suc that by blast
  have m: "pmembers g d s = pmembers f d s" if "2 * length s + 1 \<le> f" "f \<le> g" for g d s
    using Suc that by blast
  have "pvalue g d s = pvalue (Suc f) d s" if b: "2 * length s + 1 \<le> Suc f" "Suc f \<le> g" for g d s
  proof -
    obtain g' where g: "g = Suc g'" "f \<le> g'" using b(2) by (cases g) auto
    have "pelems g' (d + 1) cs = pelems f (d + 1) cs"
      and "pmembers g' (d + 1) cs = pmembers f (d + 1) cs" if "skip_ws s = c # cs" for c cs
      using skip_ws_Cons_length [OF that] b(1) g(2) by (auto intro!: e m)
    then show ?thesis by (auto simp: g split: list.split)
  qed
  moreover have "pelems g d s = pelems (Suc f) d s"
    if b: "2 * length s + 2 \<le> Suc f" "Suc f \<le> g" for g d s
  proof -
    obtain g' where g: "g = Suc g'" "f \<le> g'" using b(2) by (cases g) auto
    have pv: "pvalue g' d s = pvalue f d s" using b(1) g(2) by (intro v) simp_all
    have "pelems g' d cs = pelems f d cs"
      if "pvalue f d s = Some (x, r)" and "skip_ws r = c # cs" for x r c cs
      using skip_ws_Cons_length [OF that(2)] pvalue_length [OF that(1)] b(1) g(2)
      by (intro e) simp_all
    then show ?thesis using pv by (auto simp: g split: list.split option.split)
  qed
  moreover have "pmembers g d s = pmembers (Suc f) d s"
    if b: "2 * length s + 1 \<le> Suc f" "Suc f \<le> g" for g d s
  proof -
    obtain g' where g: "g = Suc g'" "f \<le> g'" using b(2) by (cases g) auto
    have val: "pvalue g' d r' = pvalue f d r'"
      if "skip_ws s = q # qs" and "lex_string qs = Some (k, r)" and "skip_ws r = x # r'"
      for q qs k r x r'
      using skip_ws_Cons_length [OF that(1)] lex_string_length [OF that(2)]
        skip_ws_Cons_length [OF that(3)] b(1) g(2)
      by (intro v) simp_all
    have "pmembers g' d t' = pmembers f d t'"
      if "skip_ws s = q # qs" and "lex_string qs = Some (k, r)" and "skip_ws r = x # r'"
        and "pvalue f d r' = Some (y, t)" and "skip_ws t = z # t'"
      for q qs k r x r' y t z t'
      using skip_ws_Cons_length [OF that(1)] lex_string_length [OF that(2)]
        skip_ws_Cons_length [OF that(3)] pvalue_length [OF that(4)]
        skip_ws_Cons_length [OF that(5)] b(1) g(2)
      by (intro m) simp_all
    with val show ?thesis by (auto simp: g split: list.split option.split)
  qed
  ultimately show ?case by blast
qed

text \<open>An answer found with little fuel is the answer with more.\<close>

lemma parser_more:
  "(\<forall>d s x. pvalue f d s = Some x \<longrightarrow> pvalue (Suc f) d s = Some x)
   \<and> (\<forall>d s x. pelems f d s = Some x \<longrightarrow> pelems (Suc f) d s = Some x)
   \<and> (\<forall>d s x. pmembers f d s = Some x \<longrightarrow> pmembers (Suc f) d s = Some x)"
proof (induction f)
  case 0
  show ?case by simp
next
  case (Suc f)
  have v: "pvalue (Suc f) d s = Some x" if "pvalue f d s = Some x" for d s x
    using Suc that by blast
  have e: "pelems (Suc f) d s = Some x" if "pelems f d s = Some x" for d s x
    using Suc that by blast
  have m: "pmembers (Suc f) d s = Some x" if "pmembers f d s = Some x" for d s x
    using Suc that by blast
  have "pvalue (Suc (Suc f)) d s = Some x" if a: "pvalue (Suc f) d s = Some x" for d s x
  proof (cases "skip_ws s")
    case (Cons c cs)
    have "map_option g (pmembers (Suc f) d t) = Some y" if "map_option g (pmembers f d t) = Some y"
      for d t y and g :: "(bytes \<times> jvalue) list \<times> bytes \<Rightarrow> jvalue \<times> bytes"
      using that by (auto dest: m)
    moreover have "map_option g (pelems (Suc f) d t) = Some y" if "map_option g (pelems f d t) = Some y"
      for d t y and g :: "jvalue list \<times> bytes \<Rightarrow> jvalue \<times> bytes"
      using that by (auto dest: e)
    ultimately show ?thesis
      using a unfolding pvalue.simps(2) Cons list.case
      by (simp split: if_split_asm list.split_asm list.split if_split del: pvalue.simps pelems.simps pmembers.simps map_option_eq_Some)
  qed (use a in simp)
  moreover have "pelems (Suc (Suc f)) d s = Some x" if a: "pelems (Suc f) d s = Some x" for d s x
  proof -
    obtain v r where "pvalue f d s = Some (v, r)" using a by (auto split: option.splits)
    moreover have "map_option g (pelems (Suc f) d t) = Some y" if "map_option g (pelems f d t) = Some y"
      for d t y and g :: "jvalue list \<times> bytes \<Rightarrow> jvalue list \<times> bytes"
      using that by (auto dest: e simp del: pelems.simps)
    ultimately show ?thesis
      using a [unfolded pelems.simps(2)] v [of d s "(v, r)"]
      by (subst pelems.simps(2))
        (simp split: if_split_asm list.split_asm list.split if_split
          del: pvalue.simps pelems.simps pmembers.simps map_option_eq_Some)
  qed
  moreover have "pmembers (Suc (Suc f)) d s = Some x" if a: "pmembers (Suc f) d s = Some x" for d s x
  proof -
    have "pvalue f d t = Some y \<Longrightarrow> pvalue (Suc f) d t = Some y" for d t y by (rule v)
    moreover have "map_option g (pmembers (Suc f) d t) = Some y" if "map_option g (pmembers f d t) = Some y"
      for d t y and g :: "(bytes \<times> jvalue) list \<times> bytes \<Rightarrow> (bytes \<times> jvalue) list \<times> bytes"
      using that by (auto dest: m simp del: pmembers.simps)
    ultimately show ?thesis
      using a [unfolded pmembers.simps(2)]
      by (subst pmembers.simps(2))
        (simp split: if_split_asm list.split_asm list.split if_split option.split_asm prod.split_asm
          del: pvalue.simps pelems.simps pmembers.simps map_option_eq_Some)
  qed
  ultimately show ?case by blast
qed

text \<open>The fuel of \<open>json_prefix\<close> is enough: any larger amount gives the same result.\<close>

theorem pvalue_fuel: "2 * length s + 2 \<le> f \<Longrightarrow> pvalue f 0 s = json_prefix s"
  using parser_fuel [of "2 * length s + 2"] by (simp add: json_prefix_def)

lemma pvalue_more:
  assumes "f \<le> g" and "pvalue f d s = Some x"
  shows "pvalue g d s = Some x"
  using assms(1)
proof (induction rule: dec_induct)
  case base
  show ?case by (rule assms(2))
next
  case (step n)
  then show ?case using parser_more [of n] by blast
qed

lemma json_prefix_iff: "json_prefix s = Some x \<longleftrightarrow> (\<exists>f. pvalue f 0 s = Some x)"
proof
  assume "\<exists>f. pvalue f 0 s = Some x"
  then obtain f where f: "pvalue f 0 s = Some x" by blast
  have "pvalue (f + (2 * length s + 2)) 0 s = Some x" by (rule pvalue_more [OF _ f]) simp
  then show "json_prefix s = Some x" unfolding pvalue_fuel [OF le_add2] .
next
  assume "json_prefix s = Some x"
  then show "\<exists>f. pvalue f 0 s = Some x" unfolding json_prefix_def by blast
qed

lemma json_prefix_length: "json_prefix s = Some (v, r) \<Longrightarrow> length r < length s"
  unfolding json_prefix_def by (rule pvalue_length)

section \<open>Maps in order\<close>

lemma map_of_sort_key:
  "distinct (map fst ms) \<Longrightarrow> map_of (sort_key fst ms) = map_of ms"
  for ms :: "(bytes \<times> 'a) list"
proof -
  assume d: "distinct (map fst ms)"
  then have "distinct (map fst (sort_key fst ms))"
    by (metis mset_map mset_sort mset_eq_imp_distinct_iff)
  with d show ?thesis by (intro map_of_inject_set [THEN iffD2]) auto
qed

lemma sort_key_strict:
  "distinct (map fst ms) \<Longrightarrow> sorted_wrt (<) (map fst (sort_key fst ms))"
  for ms :: "(bytes \<times> 'a) list"
  by (metis mset_map mset_sort mset_eq_imp_distinct_iff sorted_sort_key strict_sorted_iff)

text \<open>The members of a marshalled map: strictly increasing names, and the members it was made of.\<close>

lemma json_map_members:
  assumes "distinct (map fst ms)"
  obtains ms' where "json_map ms = JObj ms'" "sorted_wrt (<) (map fst ms')" "set ms' = set ms"
    "map_of ms' = map_of ms"
  using that [of "sort_key fst ms"] map_of_sort_key [OF assms] sort_key_strict [OF assms]
  by (simp add: json_map_def)

end
