(* ===== verification/Go_Json_Round.thy ===== *)
theory Go_Json_Round
  imports Go_Json
begin

text \<open>
  What \<open>json.Marshal\<close> writes, \<open>json.Unmarshal\<close> reads: the text of a value is read back as that value
  with its strings made valid UTF-8 (an invalid byte becomes U+FFFD, as \<open>Marshal\<close> documents), whatever
  follows it. The conditions are those of Go: numbers are number literals, and the nesting is below the
  scanner's limit.
\<close>

section \<open>Strings\<close>

function valid_utf8 :: "bytes \<Rightarrow> bytes" where
  "valid_utf8 [] = []"
| "valid_utf8 (c # cs) =
     (if byte_val c < 128 then c # valid_utf8 cs
      else
        (let k = utf8_len (c # cs) in
         if k = 0 then replacement @ valid_utf8 cs
         else c # take (k - 1) cs @ valid_utf8 (drop (k - 1) cs)))"
  by pat_completeness auto
termination
  by (relation "measure length") auto

text \<open>A string that \<open>Marshal\<close> does not change.\<close>

definition is_utf8 :: "bytes \<Rightarrow> bool" where
  "is_utf8 s = (valid_utf8 s = s)"

lemma is_utf8_ascii: "ascii s \<Longrightarrow> is_utf8 s"
  unfolding is_utf8_def by (induction s) simp_all

text \<open>The bytes of an encoding of several bytes, and its length, do not depend on what follows it.\<close>

text \<open>The table of lead bytes, without the continuation bytes.\<close>

lemma utf8_len_lead:
  assumes "utf8_len (c # cs) = k" and "k \<noteq> 0" and "128 \<le> byte_val c"
  shows "k \<in> {2, 3, 4} \<and> k - 1 \<le> length cs"
  using assms by (auto simp: Let_def split: list.splits if_splits)

lemma utf8_len_2: "utf8_len (c # cs) = 2 \<Longrightarrow> 128 \<le> byte_val c \<Longrightarrow>
    \<exists>b r. cs = b # r \<and> 128 \<le> byte_val b \<and> (\<forall>x. utf8_len (c # b # x) = 2)"
  by (auto simp: Let_def utf8_cont_def split: list.splits if_splits)

lemma utf8_len_3: "utf8_len (c # cs) = 3 \<Longrightarrow> 128 \<le> byte_val c \<Longrightarrow>
    \<exists>b d r. cs = b # d # r \<and> 128 \<le> byte_val b \<and> 128 \<le> byte_val d
      \<and> (\<forall>x. utf8_len (c # b # d # x) = 3)"
  by (auto simp: Let_def utf8_cont_def split: list.splits if_splits)

lemma utf8_len_4: "utf8_len (c # cs) = 4 \<Longrightarrow> 128 \<le> byte_val c \<Longrightarrow>
    \<exists>b d e r. cs = b # d # e # r \<and> 128 \<le> byte_val b \<and> 128 \<le> byte_val d \<and> 128 \<le> byte_val e
      \<and> (\<forall>x. utf8_len (c # b # d # e # x) = 4)"
  by (auto simp: Let_def utf8_cont_def split: list.splits if_splits)

lemma utf8_len_Cons:
  assumes "utf8_len (c # cs) = k" and "k \<noteq> 0" and "128 \<le> byte_val c"
  shows "\<forall>x \<in> set (take (k - 1) cs). 128 \<le> byte_val x"
    and "k - 1 \<le> length cs" and "utf8_len (c # take (k - 1) cs @ r) = k"
proof -
  have k: "k \<in> {2, 3, 4}" "k - 1 \<le> length cs" using utf8_len_lead [OF assms] by simp_all
  have *: "(\<forall>x \<in> set (take (k - 1) cs). 128 \<le> byte_val x) \<and> utf8_len (c # take (k - 1) cs @ r) = k"
    using k(1) utf8_len_2 [of c cs] utf8_len_3 [of c cs] utf8_len_4 [of c cs] assms(1,3)
    by (auto simp del: utf8_len.simps)
  then show "\<forall>x \<in> set (take (k - 1) cs). 128 \<le> byte_val x" "utf8_len (c # take (k - 1) cs @ r) = k"
    by simp_all
  show "k - 1 \<le> length cs" by (rule k(2))
qed


lemma unhex_hex_lower [simp]: "n < 16 \<Longrightarrow> unhex (hex_lower n) = Some n"
proof -
  assume "n < 16"
  then have "n \<in> set [0..<16]" by simp
  moreover have "\<forall>m \<in> set [0..<16]. unhex (hex_lower m) = Some m"
    by (simp add: upt_rec hex_lower_def unhex_def)
  ultimately show ?thesis by blast
qed

lemma hex4_byte: "hex4 (CHR ''0'') (CHR ''0'') (hex_lower (byte_val c div 16)) (hex_lower (byte_val c mod 16))
    = Some (byte_val c)"
  using byte_digits [of c] by (simp add: hex4_def unhex_def [of "CHR ''0''"] mult.commute)

text \<open>How the lexer gets past one character, one escape or one encoding.\<close>

definition in_front :: "bytes \<Rightarrow> (bytes \<times> bytes) option \<Rightarrow> (bytes \<times> bytes) option" where
  "in_front p r = map_option (\<lambda>(s, t). (p @ s, t)) r"

lemma in_front_simps [simp]:
  "in_front [] r = r" "in_front p (in_front q r) = in_front (p @ q) r"
  "in_front p (Some (s, t)) = Some (p @ s, t)"
  by (cases r; simp add: in_front_def split_beta)+

lemma lex_plain: "32 \<le> byte_val c \<Longrightarrow> c \<noteq> dquote \<Longrightarrow> c \<noteq> bslash \<Longrightarrow>
    lex_string (c # r) = in_front [c] (lex_string r)"
  by (simp add: in_front_def)

lemma lex_escape: "plain_escape e \<Longrightarrow> lex_string (bslash # e # r) = in_front [bslash, e] (lex_string r)"
  by (simp add: in_front_def)

lemma lex_u: "hex4 h1 h2 h3 h4 = Some n \<Longrightarrow>
    lex_string (bslash # CHR ''u'' # h1 # h2 # h3 # h4 # r)
      = in_front [bslash, CHR ''u'', h1, h2, h3, h4] (lex_string r)"
  by (simp add: in_front_def plain_escape_def)

lemma lex_high: "\<forall>x \<in> set xs. 128 \<le> byte_val x \<Longrightarrow> lex_string (xs @ r) = in_front xs (lex_string r)"
proof (induction xs)
  case (Cons x xs)
  then have "128 \<le> byte_val x" "x \<noteq> dquote" "x \<noteq> bslash" by auto
  with Cons show ?case by (simp add: lex_plain [of x] del: lex_string.simps)
qed simp

lemma escape_ascii_cases:
  obtains (esc) e where "escape_ascii c = [bslash, e]" "plain_escape e" "e \<noteq> CHR ''u''" "simple_escape e = c"
  | (hex) "escape_ascii c = [bslash, CHR ''u'', CHR ''0'', CHR ''0'', hex_lower (byte_val c div 16),
      hex_lower (byte_val c mod 16)]"
  | (plain) "escape_ascii c = [c]" "32 \<le> byte_val c" "c \<noteq> dquote" "c \<noteq> bslash"
proof -
  consider "c = dquote \<or> c = bslash" | "c = CHR 0x08" | "c = CHR 0x0C" | "c = CHR 0x0A" | "c = CHR 0x0D"
    | "c = CHR 0x09" | "escape_ascii c = [bslash, CHR ''u'', CHR ''0'', CHR ''0'',
        hex_lower (byte_val c div 16), hex_lower (byte_val c mod 16)]"
    | "escape_ascii c = [c]" "32 \<le> byte_val c" "c \<noteq> dquote" "c \<noteq> bslash"
    unfolding escape_ascii_def by (smt (verit) not_less)
  then show ?thesis
  proof cases
    case 1 then show ?thesis
      by (intro esc [of c]) (auto simp: escape_ascii_def plain_escape_def simple_escape_def)
  next
    case 2 then show ?thesis
      by (intro esc [of "CHR ''b''"]) (auto simp: escape_ascii_def plain_escape_def simple_escape_def)
  next
    case 3 then show ?thesis
      by (intro esc [of "CHR ''f''"]) (auto simp: escape_ascii_def plain_escape_def simple_escape_def)
  next
    case 4 then show ?thesis
      by (intro esc [of "CHR ''n''"]) (auto simp: escape_ascii_def plain_escape_def simple_escape_def)
  next
    case 5 then show ?thesis
      by (intro esc [of "CHR ''r''"]) (auto simp: escape_ascii_def plain_escape_def simple_escape_def)
  next
    case 6 then show ?thesis
      by (intro esc [of "CHR ''t''"]) (auto simp: escape_ascii_def plain_escape_def simple_escape_def)
  qed (use hex plain in blast)+
qed

lemma lex_ascii: "lex_string (escape_ascii c @ r) = in_front (escape_ascii c) (lex_string r)"
  by (cases c rule: escape_ascii_cases)
    (simp_all add: lex_escape lex_u [OF hex4_byte] lex_plain del: lex_string.simps)

lemma unquote_u: "hex4 h1 h2 h3 h4 = Some n \<Longrightarrow> n < 55296 \<or> 57344 \<le> n \<Longrightarrow>
    unquote (bslash # CHR ''u'' # h1 # h2 # h3 # h4 # r) = utf8_encode n @ unquote r"
  by (simp del: unquote.simps add: unquote.simps(2) [of bslash]) auto

lemma unquote_escape: "e \<noteq> CHR ''u'' \<Longrightarrow> unquote (bslash # e # r) = simple_escape e # unquote r"
  by (simp del: unquote.simps add: unquote.simps(2) [of bslash])

lemma unquote_plain: "byte_val c < 128 \<Longrightarrow> c \<noteq> bslash \<Longrightarrow> unquote (c # r) = c # unquote r"
  by (simp del: unquote.simps add: unquote.simps(2) [of c])

lemma unquote_ascii:
  assumes "byte_val c < 128"
  shows "unquote (escape_ascii c @ r) = c # unquote r"
proof -
  have "utf8_encode (byte_val c) = [c]" using assms by (simp add: utf8_encode_def)
  then show ?thesis using assms
    by (cases c rule: escape_ascii_cases)
      (simp_all add: unquote_escape unquote_u [OF hex4_byte] unquote_plain del: unquote.simps)
qed

text \<open>An encoding of several bytes.\<close>

lemma unquote_high:
  assumes "utf8_len (c # cs) = k" and "k \<noteq> 0" and "128 \<le> byte_val c"
  shows "unquote (c # take (k - 1) cs @ r) = c # take (k - 1) cs @ unquote r"
proof -
  have "c \<noteq> bslash" using assms(3) by auto
  with utf8_len_Cons [OF assms] assms(2,3) show ?thesis
    by (simp del: unquote.simps utf8_len.simps add: unquote.simps(2) [of c] Let_def)
qed

lemma utf8_2028: "utf8_encode 8232 = [CHR 0xE2, CHR 0x80, CHR 0xA8]"
    "utf8_encode 8233 = [CHR 0xE2, CHR 0x80, CHR 0xA9]" "utf8_encode 65533 = replacement"
  by (simp_all add: utf8_encode_def replacement_def char_of_eq_iff)

lemma hex4_2028: "hex4 (CHR ''2'') (CHR ''0'') (CHR ''2'') (CHR ''8'') = Some 8232"
    "hex4 (CHR ''2'') (CHR ''0'') (CHR ''2'') (CHR ''9'') = Some 8233"
    "hex4 (CHR ''f'') (CHR ''f'') (CHR ''f'') (CHR ''d'') = Some 65533"
  by (simp_all add: hex4_def unhex_def)

lemma take_two: "take 2 cs = [x, y] \<Longrightarrow> \<exists>r. cs = x # y # r"
  by (metis append_Cons append_Nil append_take_drop_id)

lemma utf8_len_2028: "take 2 cs = [CHR 0x80, CHR 0xA8] \<or> take 2 cs = [CHR 0x80, CHR 0xA9] \<Longrightarrow>
    utf8_len (CHR 0xE2 # cs) = 3"
  by (auto dest!: take_two simp: Let_def utf8_cont_def) 

lemma escape_step:
  assumes "128 \<le> byte_val c"
  obtains (bad) "escape_string (c # cs) = bslash # ''ufffd'' @ escape_string cs"
      "valid_utf8 (c # cs) = replacement @ valid_utf8 cs"
  | (sep) h n where "escape_string (c # cs) = bslash # ''u202'' @ h # escape_string (drop 2 cs)"
      "hex4 (CHR ''2'') (CHR ''0'') (CHR ''2'') h = Some n" "n < 55296"
      "valid_utf8 (c # cs) = utf8_encode n @ valid_utf8 (drop 2 cs)"
  | (ok) k where "utf8_len (c # cs) = k" "k \<noteq> 0"
      "escape_string (c # cs) = c # take (k - 1) cs @ escape_string (drop (k - 1) cs)"
      "valid_utf8 (c # cs) = c # take (k - 1) cs @ valid_utf8 (drop (k - 1) cs)"
proof -
  define k where "k = utf8_len (c # cs)"
  consider "k = 0"
    | "k \<noteq> 0" "c = CHR 0xE2" "take 2 cs = [CHR 0x80, CHR 0xA8]"
    | "k \<noteq> 0" "c = CHR 0xE2" "take 2 cs = [CHR 0x80, CHR 0xA9]"
    | "k \<noteq> 0" "\<not> (c = CHR 0xE2 \<and> take 2 cs = [CHR 0x80, CHR 0xA8])"
        "\<not> (c = CHR 0xE2 \<and> take 2 cs = [CHR 0x80, CHR 0xA9])"
    by blast
  then show ?thesis
  proof cases
    case 1
    then show ?thesis using assms
      by (intro bad) (simp_all add: k_def Let_def del: utf8_len.simps)
  next
    case 2
    then have "k = 3" using utf8_len_2028 [of cs] by (simp add: k_def del: utf8_len.simps)
    with 2 assms show ?thesis
      by (intro sep [of "CHR ''8''" 8232])
        (simp_all add: k_def Let_def hex4_2028 utf8_2028 del: utf8_len.simps)
  next
    case 3
    then have "k = 3" using utf8_len_2028 [of cs] by (simp add: k_def del: utf8_len.simps)
    with 3 assms show ?thesis
      by (intro sep [of "CHR ''9''" 8233])
        (simp_all add: k_def Let_def hex4_2028 utf8_2028 del: utf8_len.simps)
  next
    case 4
    then show ?thesis using assms
      by (intro ok [of k]) (auto simp add: k_def Let_def simp del: utf8_len.simps)
  qed
qed

lemma lex_escape_string: "lex_string (escape_string s @ r) = in_front (escape_string s) (lex_string r)"
proof (induction "length s" arbitrary: s rule: less_induct)
  case less
  show ?case
  proof (cases s)
    case (Cons c cs)
    have ih: "lex_string (escape_string (drop n cs) @ r) = in_front (escape_string (drop n cs)) (lex_string r)" for n
      using less Cons by simp
    show ?thesis
    proof (cases "byte_val c < 128")
      case True
      then show ?thesis using ih [of 0] by (simp add: Cons lex_ascii del: lex_string.simps)
    next
      case False
      then have "128 \<le> byte_val c" by simp
      then show ?thesis
      proof (cases rule: escape_step [of c cs])
        case bad
        then show ?thesis using ih [of 0]
          by (simp add: Cons lex_u [OF hex4_2028(3)] del: lex_string.simps escape_string.simps)
      next
        case (sep h n)
        then show ?thesis using ih [of 2]
          by (simp add: Cons lex_u [OF sep(2)] del: lex_string.simps escape_string.simps)
      next
        case (ok k)
        have "\<forall>x \<in> set (c # take (k - 1) cs). 128 \<le> byte_val x"
          using utf8_len_Cons(1) [OF ok(1,2) \<open>128 \<le> byte_val c\<close>] \<open>128 \<le> byte_val c\<close> by simp
        from lex_high [OF this] ih [of "k - 1"] show ?thesis
          by (simp add: Cons ok(3) del: lex_string.simps escape_string.simps)
      qed
    qed
  qed simp
qed

lemma lex_print_string: "lex_string (escape_string s @ dquote # r) = Some (escape_string s, r)"
  by (simp add: lex_escape_string del: escape_string.simps)

lemma unquote_escape_string: "unquote (escape_string s) = valid_utf8 s"
proof (induction "length s" arbitrary: s rule: less_induct)
  case less
  show ?case
  proof (cases s)
    case (Cons c cs)
    have ih: "unquote (escape_string (drop n cs)) = valid_utf8 (drop n cs)" for n
      using less Cons by simp
    show ?thesis
    proof (cases "byte_val c < 128")
      case True
      then show ?thesis using ih [of 0] by (simp add: Cons unquote_ascii del: unquote.simps)
    next
      case False
      then have high: "128 \<le> byte_val c" by simp
      then show ?thesis
      proof (cases rule: escape_step [of c cs])
        case bad
        then show ?thesis using ih [of 0]
          by (simp add: Cons unquote_u [OF hex4_2028(3)] utf8_2028 del: unquote.simps escape_string.simps valid_utf8.simps)
      next
        case (sep h n)
        then show ?thesis using ih [of 2]
          by (simp add: Cons unquote_u [OF sep(2)] del: unquote.simps escape_string.simps valid_utf8.simps)
      next
        case (ok k)
        then show ?thesis using ih [of "k - 1"]
          by (simp add: Cons unquote_high [OF ok(1,2) high] del: unquote.simps escape_string.simps valid_utf8.simps
              utf8_len.simps One_nat_def)
      qed
    qed
  qed simp
qed

text \<open>What is read back is valid, so a second trip changes nothing.\<close>

lemma valid_utf8_ascii: "byte_val c < 128 \<Longrightarrow> valid_utf8 (c # r) = c # valid_utf8 r"
  by simp

lemma valid_utf8_high:
  assumes "utf8_len (c # cs) = k" and "k \<noteq> 0" and "128 \<le> byte_val c"
  shows "valid_utf8 (c # take (k - 1) cs @ r) = c # take (k - 1) cs @ valid_utf8 r"
  using utf8_len_Cons [OF assms] assms(2,3) by (simp add: Let_def del: utf8_len.simps)

lemma valid_utf8_replacement: "valid_utf8 (replacement @ r) = replacement @ valid_utf8 r"
  by (simp add: replacement_def Let_def utf8_cont_def)

lemma valid_utf8_idem [simp]: "valid_utf8 (valid_utf8 s) = valid_utf8 s"
proof (induction s rule: valid_utf8.induct)
  case (2 c cs)
  show ?case
  proof (cases "byte_val c < 128")
    case False
    then have high: "128 \<le> byte_val c" by simp
    show ?thesis
    proof (cases "utf8_len (c # cs) = 0")
      case True
      with 2(2) False show ?thesis
        by (simp add: Let_def valid_utf8_replacement del: utf8_len.simps)
    next
      case k: False
      define k where "k = utf8_len (c # cs)"
      have eq: "valid_utf8 (c # cs) = c # take (k - 1) cs @ valid_utf8 (drop (k - 1) cs)"
        using False k by (simp add: k_def Let_def del: utf8_len.simps)
      have "valid_utf8 (valid_utf8 (drop (k - 1) cs)) = valid_utf8 (drop (k - 1) cs)"
        using 2(3) [OF False k_def] k by (simp add: k_def del: utf8_len.simps)
      moreover have "valid_utf8 (c # take (k - 1) cs @ r) = c # take (k - 1) cs @ valid_utf8 r" for r
        by (rule valid_utf8_high [OF k_def [symmetric] _ high]) (use k in \<open>simp add: k_def\<close>)
      ultimately show ?thesis unfolding eq by simp
    qed
  qed (use 2(1) in simp)
qed simp

lemma is_utf8_valid [simp]: "is_utf8 (valid_utf8 s)"
  by (simp add: is_utf8_def)

lemma valid_utf8_id: "is_utf8 s \<Longrightarrow> valid_utf8 s = s"
  by (simp add: is_utf8_def)

section \<open>Numbers\<close>

text \<open>A number literal, and what can follow one in a document.\<close>

definition number_ok :: "bytes \<Rightarrow> bool" where
  "number_ok n = (lex_number n = Some (n, []))"

definition number_end :: "bytes \<Rightarrow> bool" where
  "number_end r = (case r of [] \<Rightarrow> True | c # _ \<Rightarrow> \<not> is_digit c \<and> c \<notin> set ''.eE+-'')"

lemma number_end_digits: "number_end r \<Longrightarrow> takeWhile is_digit r = [] \<and> dropWhile is_digit r = r"
  by (cases r) (simp_all add: number_end_def)

lemma digits_append:
  assumes "number_end r"
  shows "takeWhile is_digit (s @ r) = takeWhile is_digit s"
    and "dropWhile is_digit (s @ r) = dropWhile is_digit s @ r"
proof -
  show "takeWhile is_digit (s @ r) = takeWhile is_digit s"
    using number_end_digits [OF assms] by (induction s) auto
  show "dropWhile is_digit (s @ r) = dropWhile is_digit s @ r"
    using number_end_digits [OF assms] by (induction s) auto
qed

lemma lex_int_append: "lex_int s = Some (i, t) \<Longrightarrow> number_end r \<Longrightarrow> lex_int (s @ r) = Some (i, t @ r)"
  by (cases s) (auto simp: lex_int_def digits_append digits_append [of r "_ # _", simplified] split: if_splits)

lemma lex_frac_append: "lex_frac s = Some (f, t) \<Longrightarrow> number_end r \<Longrightarrow> lex_frac (s @ r) = Some (f, t @ r)"
  by (cases s; cases r) (auto simp: lex_frac_def digits_append number_end_def digits_append [of "_ # _"] split: if_splits)

lemma lex_exp_append:
  assumes "lex_exp s = Some (f, t)" and r: "number_end r"
  shows "lex_exp (s @ r) = Some (f, t @ r)"
proof (cases s)
  case Nil
  with assms show ?thesis by (cases r) (auto simp: lex_exp_def number_end_def)
next
  case (Cons c u)
  show ?thesis
  proof (cases "c = CHR ''e'' \<or> c = CHR ''E''")
    case True
    define sg where "sg = (case u of x # _ \<Rightarrow> if x = CHR ''+'' \<or> x = CHR ''-'' then [x] else [] | [] \<Rightarrow> [])"
    have f: "takeWhile is_digit (drop (length sg) u) \<noteq> []"
        "f = c # sg @ takeWhile is_digit (drop (length sg) u)" "t = dropWhile is_digit (drop (length sg) u)"
      using assms(1) True by (auto simp: Cons lex_exp_def Let_def simp flip: sg_def split: if_splits)
    then have "u \<noteq> []" by auto
    then obtain x v where u: "u = x # v" by (cases u) auto
    have sg: "sg = (case u @ r of x # _ \<Rightarrow> if x = CHR ''+'' \<or> x = CHR ''-'' then [x] else [] | [] \<Rightarrow> [])"
      by (simp add: sg_def u)
    have "length sg \<le> length u" by (simp add: sg_def u)
    then have "drop (length sg) (u @ r) = drop (length sg) u @ r" by simp
    with True f show ?thesis
      by (simp add: Cons lex_exp_def Let_def digits_append [OF r] flip: sg)
  next
    case False
    with assms(1) show ?thesis by (auto simp: Cons lex_exp_def)
  qed
qed

lemma lex_number_append:
  assumes "lex_number s = Some (n, t)" and r: "number_end r"
  shows "lex_number (s @ r) = Some (n, t @ r)"
proof -
  define sg where "sg = (case s of x # _ \<Rightarrow> if x = CHR ''-'' then [x] else [] | [] \<Rightarrow> [])"
  obtain i r1 f r2 e r3 where p: "lex_int (drop (length sg) s) = Some (i, r1)"
      "lex_frac r1 = Some (f, r2)" "lex_exp r2 = Some (e, r3)" "n = sg @ i @ f @ e" "t = r3"
    using assms(1) by (auto simp: lex_number_def Let_def simp flip: sg_def split: option.splits)
  then have "s \<noteq> []" by (auto simp: lex_int_def)
  then obtain x v where s: "s = x # v" by (cases s) auto
  have sg: "sg = (case s @ r of x # _ \<Rightarrow> if x = CHR ''-'' then [x] else [] | [] \<Rightarrow> [])"
    by (simp add: sg_def s)
  have "length sg \<le> length s" by (simp add: sg_def s)
  then have "drop (length sg) (s @ r) = drop (length sg) s @ r" by simp
  then show ?thesis
    using lex_int_append [OF p(1) r] lex_frac_append [OF p(2) r] lex_exp_append [OF p(3) r]
    by (simp add: lex_number_def Let_def p(4,5) flip: sg)
qed

lemma lex_number_ok: "number_ok n \<Longrightarrow> number_end r \<Longrightarrow> lex_number (n @ r) = Some (n, r)"
  using lex_number_append [of n n "[]" r] by (simp add: number_ok_def)

lemma number_ok_start:
  assumes "number_ok n"
  obtains c cs where "n = c # cs" "is_digit c \<or> c = CHR ''-''"
  using assms that
  by (cases n) (auto simp: number_ok_def lex_number_def lex_int_def Let_def is_digit_def split: option.splits if_splits)

text \<open>The decimal text of an integer is a literal.\<close>

lemma digit_nth: "n < 10 \<Longrightarrow> is_digit (''0123456789'' ! n) \<and> (''0123456789'' ! n = CHR ''0'' \<longleftrightarrow> n = 0)"
proof -
  assume "n < 10"
  then have "n \<in> set [0..<10]" by simp
  moreover have "\<forall>m \<in> set [0..<10]. is_digit (''0123456789'' ! m) \<and> (''0123456789'' ! m = CHR ''0'' \<longleftrightarrow> m = 0)"
    by (simp add: upt_rec is_digit_def)
  ultimately show ?thesis by blast
qed

lemma nat_dec_digits: "list_all is_digit (nat_dec n)
    \<and> (\<exists>c cs. nat_dec n = c # cs \<and> (c = CHR ''0'' \<longrightarrow> n = 0 \<and> cs = []))"
proof (induction n rule: nat_dec.induct)
  case (1 n)
  show ?case
  proof (cases "n < 10")
    case True
    then show ?thesis using digit_nth [OF True] by (subst (1 2) nat_dec.simps) auto
  next
    case False
    from 1 [OF False] obtain c cs where c: "list_all is_digit (nat_dec (n div 10))"
        "nat_dec (n div 10) = c # cs" "c = CHR ''0'' \<longrightarrow> n div 10 = 0 \<and> cs = []"
      by blast
    have "n div 10 \<noteq> 0" using False by (simp add: div_eq_0_iff)
    with c False show ?thesis
      using digit_nth [of "n mod 10"] by (subst (1 2) nat_dec.simps) auto
  qed
qed

lemma lex_int_digits: "list_all is_digit s \<Longrightarrow> s = c # cs \<Longrightarrow> (c = CHR ''0'' \<longrightarrow> cs = []) \<Longrightarrow>
    lex_int s = Some (s, [])"
proof -
  assume *: "list_all is_digit s" "s = c # cs" "c = CHR ''0'' \<longrightarrow> cs = []"
  then have "takeWhile is_digit s = s" "dropWhile is_digit s = []" by (simp_all add: list_all_iff)
  with * show ?thesis by (simp add: lex_int_def)
qed

lemma lex_tail_Nil: "lex_frac [] = Some ([], [])" "lex_exp [] = Some ([], [])"
  by (simp_all add: lex_frac_def lex_exp_def)

lemma number_ok_dec: "number_ok (int_dec i)"
proof -
  have nat: "lex_number (sg @ nat_dec n) = Some (sg @ nat_dec n, [])" if "sg \<in> {[], ''-''}" for sg n
  proof -
    obtain c cs where c: "list_all is_digit (nat_dec n)" "nat_dec n = c # cs" "c = CHR ''0'' \<longrightarrow> cs = []"
      using nat_dec_digits [of n] by blast
    have "c \<noteq> CHR ''-''" using c(1,2) by (auto simp: is_digit_def)
    with that lex_int_digits [OF c] c(2) show ?thesis
      by (auto simp: lex_number_def Let_def lex_tail_Nil)
  qed
  show ?thesis
    using nat [of "''-''" "nat (- i)"] nat [of "[]" "nat i"] by (simp add: number_ok_def int_dec_def)
qed

section \<open>Values\<close>

text \<open>
  A value that \<open>Marshal\<close> can have been given: its numbers are literals. How deep it nests; and the
  value that is read back.
\<close>

fun json_ok :: "jvalue \<Rightarrow> bool" where
  "json_ok (JNum n) = number_ok n"
| "json_ok (JArr vs) = list_all json_ok vs"
| "json_ok (JObj ms) = list_all (\<lambda>(k, v). json_ok v) ms"
| "json_ok v = True"

fun json_depth :: "jvalue \<Rightarrow> nat" where
  "json_depth (JArr vs) = Suc (foldr max (map json_depth vs) 0)"
| "json_depth (JObj ms) = Suc (foldr max (map (\<lambda>(k, v). json_depth v) ms) 0)"
| "json_depth v = 0"

fun json_valid :: "jvalue \<Rightarrow> jvalue" where
  "json_valid (JStr s) = JStr (valid_utf8 s)"
| "json_valid (JArr vs) = JArr (map json_valid vs)"
| "json_valid (JObj ms) = JObj (map (\<lambda>(k, v). (valid_utf8 k, json_valid v)) ms)"
| "json_valid v = v"

text \<open>The text of a value starts with a character that is not white space and fits its kind.\<close>

lemma skip_ws_id: "\<not> json_ws c \<Longrightarrow> skip_ws (c # cs) = c # cs"
  by (simp add: skip_ws_def)

lemma json_print_start:
  assumes "json_ok v"
  obtains c cs where "json_print v = c # cs" "\<not> json_ws c" "c \<noteq> CHR '']''" "c \<noteq> CHR ''}''"
proof (cases v)
  case (JNum n)
  with assms have "number_ok n" by simp
  then obtain c cs where "n = c # cs" "is_digit c \<or> c = CHR ''-''" by (rule number_ok_start)
  then show ?thesis using that [of c cs] JNum by (auto simp: json_ws_def is_digit_def)
next
  case (JBool b)
  then show ?thesis using that by (cases b) (auto simp: json_ws_def)
qed (use that in \<open>auto simp: json_ws_def print_string_def\<close>)

lemma join_comma_Cons: "ys \<noteq> [] \<Longrightarrow> join_comma (x # ys) = x @ '','' @ join_comma ys"
  by (cases ys) simp_all

text \<open>Reading the text of a value back, with enough fuel and whatever follows.\<close>

definition reads_back :: "jvalue \<Rightarrow> bool" where
  "reads_back v \<longleftrightarrow> (\<forall>f d r. 2 * length (json_print v @ r) + 1 \<le> f \<longrightarrow>
     d + int (json_depth v) \<le> max_nesting \<longrightarrow> number_end r \<longrightarrow>
     pvalue f d (json_print v @ r) = Some (json_valid v, r))"

lemma reads_backD: "reads_back v \<Longrightarrow> 2 * length (json_print v @ r) + 1 \<le> f \<Longrightarrow>
    d + int (json_depth v) \<le> max_nesting \<Longrightarrow> number_end r \<Longrightarrow>
    pvalue f d (json_print v @ r) = Some (json_valid v, r)"
  by (simp add: reads_back_def)

lemma number_end_simps [simp]: "number_end []" "number_end (CHR '','' # r)" "number_end (CHR '']'' # r)"
    "number_end (CHR ''}'' # r)"
  by (simp_all add: number_end_def is_digit_def)

lemma skip_ws_simps [simp]: "skip_ws (CHR '','' # r) = CHR '','' # r" "skip_ws (CHR '']'' # r) = CHR '']'' # r"
    "skip_ws (CHR ''}'' # r) = CHR ''}'' # r" "skip_ws (CHR '':'' # r) = CHR '':'' # r"
    "skip_ws (dquote # r) = dquote # r" "skip_ws (CHR ''{'' # r) = CHR ''{'' # r"
    "skip_ws (CHR ''['' # r) = CHR ''['' # r"
  by (simp_all add: skip_ws_def json_ws_def)

lemma pelems_print:
  assumes "vs \<noteq> []" and "\<forall>v \<in> set vs. reads_back v \<and> d + int (json_depth v) \<le> max_nesting"
    and "2 * length (join_comma (map json_print vs) @ CHR '']'' # r) + 2 \<le> f"
  shows "pelems f d (join_comma (map json_print vs) @ CHR '']'' # r) = Some (map json_valid vs, r)"
  using assms
proof (induction vs arbitrary: f)
  case (Cons v vs)
  then obtain g where f: "f = Suc g" by (cases f) auto
  show ?case
  proof (cases "vs = []")
    case True
    with Cons.prems f show ?thesis by (simp add: reads_backD)
  next
    case False
    have "pvalue g d (json_print v @ '','' @ join_comma (map json_print vs) @ CHR '']'' # r)
        = Some (json_valid v, '','' @ join_comma (map json_print vs) @ CHR '']'' # r)"
      using Cons.prems(2,3) False f by (intro reads_backD) (simp_all add: join_comma_Cons)
    moreover have "pelems g d (join_comma (map json_print vs) @ CHR '']'' # r) = Some (map json_valid vs, r)"
      using Cons.prems(2,3) False f by (intro Cons.IH) (simp_all add: join_comma_Cons)
    ultimately show ?thesis using False by (simp add: f join_comma_Cons)
  qed
qed simp

abbreviation print_member :: "bytes \<times> jvalue \<Rightarrow> bytes" where
  "print_member \<equiv> \<lambda>(k, v). print_string k @ '':'' @ json_print v"

lemma pmembers_print:
  assumes "ms \<noteq> []" and "\<forall>m \<in> set ms. reads_back (snd m) \<and> d + int (json_depth (snd m)) \<le> max_nesting"
    and "2 * length (join_comma (map print_member ms) @ CHR ''}'' # r) + 1 \<le> f"
  shows "pmembers f d (join_comma (map print_member ms) @ CHR ''}'' # r)
    = Some (map (\<lambda>(k, v). (valid_utf8 k, json_valid v)) ms, r)"
  using assms
proof (induction ms arbitrary: f)
  case (Cons m ms)
  obtain k v where m: "m = (k, v)" by (cases m)
  from Cons.prems obtain g where f: "f = Suc g" by (cases f) auto
  show ?case
  proof (cases "ms = []")
    case True
    have "pvalue g d (json_print v @ CHR ''}'' # r) = Some (json_valid v, CHR ''}'' # r)"
      using Cons.prems(2,3) True f m by (intro reads_backD) (simp_all add: print_string_def)
    with True show ?thesis by (simp add: f m print_string_def lex_print_string unquote_escape_string)
  next
    case False
    let ?t = "join_comma (map print_member ms) @ CHR ''}'' # r"
    have "pvalue g d (json_print v @ '','' @ ?t) = Some (json_valid v, '','' @ ?t)"
      using Cons.prems(2,3) False f m
      by (intro reads_backD) (simp_all add: print_string_def join_comma_Cons)
    moreover have "pmembers g d ?t = Some (map (\<lambda>(k, v). (valid_utf8 k, json_valid v)) ms, r)"
      using Cons.prems(2,3) False f m by (intro Cons.IH) (simp_all add: print_string_def join_comma_Cons)
    ultimately show ?thesis using False
      by (simp add: f m print_string_def lex_print_string unquote_escape_string join_comma_Cons)
  qed
qed simp

lemma depth_le: "x \<in> set xs \<Longrightarrow> f x \<le> foldr max (map f xs) (0::nat)"
  by (induction xs) (auto simp: le_max_iff_disj)

lemma join_comma_start: "vs \<noteq> [] \<Longrightarrow> \<exists>x xs. vs = x # xs \<and> (\<exists>t. join_comma (map g vs) = g x @ t)"
  by (cases vs; cases "tl vs") auto

lemma reads_back_atom:
  assumes "\<And>f d r. number_end r \<Longrightarrow> pvalue (Suc f) d (json_print v @ r) = Some (json_valid v, r)"
  shows "reads_back v"
  unfolding reads_back_def
proof (intro allI impI)
  fix f d r
  assume "2 * length (json_print v @ r) + 1 \<le> f" and r: "number_end r"
  then obtain g where "f = Suc g" by (cases f) auto
  with assms [OF r] show "pvalue f d (json_print v @ r) = Some (json_valid v, r)" by simp
qed

lemma json_reads_back: "json_ok v \<Longrightarrow> reads_back v"
proof (induction v)
  case (JArr vs)
  show ?case unfolding reads_back_def
  proof (intro allI impI)
    fix f d r
    assume f: "2 * length (json_print (JArr vs) @ r) + 1 \<le> f"
      and d: "d + int (json_depth (JArr vs)) \<le> max_nesting" and r: "number_end r"
    then obtain g where g: "f = Suc g" by (cases f) auto
    have nest: "\<not> max_nesting \<le> d" using d by simp
    show "pvalue f d (json_print (JArr vs) @ r) = Some (json_valid (JArr vs), r)"
    proof (cases "vs = []")
      case True
      with g nest show ?thesis by simp
    next
      case False
      have "pelems g (d + 1) (join_comma (map json_print vs) @ CHR '']'' # r) = Some (map json_valid vs, r)"
      proof (rule pelems_print [OF False])
        show "\<forall>v \<in> set vs. reads_back v \<and> d + 1 + int (json_depth v) \<le> max_nesting"
          using JArr d depth_le [of _ vs json_depth] by (fastforce simp: list_all_iff)
      qed (use f g in simp)
      moreover obtain x xs t where x: "vs = x # xs" "join_comma (map json_print vs) = json_print x @ t"
        using join_comma_start [OF False] by blast
      moreover obtain c cs where "json_print x = c # cs" "\<not> json_ws c" "c \<noteq> CHR '']''"
        using JArr.prems x(1) by (auto elim: json_print_start)
      ultimately show ?thesis using nest by (simp add: g skip_ws_id)
    qed
  qed
next
  case (JObj ms)
  show ?case unfolding reads_back_def
  proof (intro allI impI)
    fix f d r
    assume f: "2 * length (json_print (JObj ms) @ r) + 1 \<le> f"
      and d: "d + int (json_depth (JObj ms)) \<le> max_nesting" and r: "number_end r"
    then obtain g where g: "f = Suc g" by (cases f) auto
    have nest: "\<not> max_nesting \<le> d" using d by simp
    show "pvalue f d (json_print (JObj ms) @ r) = Some (json_valid (JObj ms), r)"
    proof (cases "ms = []")
      case True
      with g nest show ?thesis by simp
    next
      case False
      have "pmembers g (d + 1) (join_comma (map print_member ms) @ CHR ''}'' # r)
          = Some (map (\<lambda>(k, v). (valid_utf8 k, json_valid v)) ms, r)"
      proof (rule pmembers_print [OF False])
        show "\<forall>m \<in> set ms. reads_back (snd m) \<and> d + 1 + int (json_depth (snd m)) \<le> max_nesting"
          using JObj d depth_le [of _ ms "\<lambda>(k, v). json_depth v"]
          by (fastforce simp: list_all_iff split_beta)
      qed (use f g in simp)
      moreover obtain x xs t where x: "ms = x # xs" "join_comma (map print_member ms) = print_member x @ t"
        using join_comma_start [OF False] by blast
      moreover obtain cs where "print_member x = dquote # cs"
        by (simp add: print_string_def split_beta)
      ultimately show ?thesis using nest by (simp add: g)
    qed
  qed
next
  case (JNum n)
  then have n: "number_ok n" by simp
  then obtain c cs where c: "n = c # cs" "is_digit c \<or> c = CHR ''-''" by (rule number_ok_start)
  then have "\<not> json_ws c" "c \<notin> set ''{[tfn'' \<and> c \<noteq> dquote" by (auto simp: json_ws_def is_digit_def)
  then show ?case
    using lex_number_ok [OF n] by (intro reads_back_atom) (simp add: c(1) skip_ws_id)
next
  case (JStr s)
  show ?case
    by (rule reads_back_atom) (simp add: print_string_def lex_print_string unquote_escape_string)
qed (rule reads_back_atom; simp add: skip_ws_id json_ws_def)+

text \<open>The round trip: \<open>Unmarshal\<close> after \<open>Marshal\<close>, or \<open>Decode\<close> of a stream that starts with the text.\<close>

theorem json_round_trip:
  assumes "json_ok v" and "int (json_depth v) \<le> max_nesting" and "number_end r"
  shows "json_prefix (json_print v @ r) = Some (json_valid v, r)"
  unfolding json_prefix_def
  using assms by (intro reads_backD [OF json_reads_back]) simp_all

text \<open>\<open>json.Unmarshal\<close> wants nothing but white space behind the value.\<close>

definition json_document :: "bytes \<Rightarrow> jvalue option" where
  "json_document s =
     (case json_prefix s of None \<Rightarrow> None | Some (v, r) \<Rightarrow> if skip_ws r = [] then Some v else None)"

lemma json_document_print:
  "json_ok v \<Longrightarrow> int (json_depth v) \<le> max_nesting \<Longrightarrow> json_document (json_print v) = Some (json_valid v)"
  using json_round_trip [of v "[]"] by (simp add: json_document_def skip_ws_def)

text \<open>A value of valid strings only is read back as it was.\<close>

fun json_utf8 :: "jvalue \<Rightarrow> bool" where
  "json_utf8 (JStr s) = is_utf8 s"
| "json_utf8 (JArr vs) = list_all json_utf8 vs"
| "json_utf8 (JObj ms) = list_all (\<lambda>(k, v). is_utf8 k \<and> json_utf8 v) ms"
| "json_utf8 v = True"

lemma json_valid_id: "json_utf8 v \<Longrightarrow> json_valid v = v"
proof (induction v rule: json_valid.induct)
  case (2 vs)
  then show ?case by (auto simp: list_all_iff intro!: map_idI)
next
  case (3 ms)
  then show ?case by (fastforce simp: list_all_iff valid_utf8_id intro!: map_idI)
qed (simp_all add: valid_utf8_id)

lemma json_valid_utf8 [simp]: "json_utf8 (json_valid v)"
  by (induction v rule: json_valid.induct) (auto simp: list_all_iff)

lemma json_valid_ok [simp]: "json_ok (json_valid v) = json_ok v"
  by (induction v rule: json_valid.induct) (auto simp: list_all_iff)

lemma json_valid_depth [simp]: "json_depth (json_valid v) = json_depth v"
proof (induction v rule: json_valid.induct)
  case (2 vs)
  then show ?case by (simp cong: map_cong)
next
  case (3 ms)
  then have "map ((\<lambda>(k, v). json_depth v) \<circ> (\<lambda>(k, v). (valid_utf8 k, json_valid v))) ms
      = map (\<lambda>(k, v). json_depth v) ms"
    by (intro map_cong) auto
  then show ?case by (simp del: map_eq_conv)
qed simp_all

end
