(* ===== verification/Go_Time.thy ===== *)
theory Go_Time
  imports Go_Url
begin

text \<open>
  \<open>time.Time\<close> as JSON: \<open>Time.MarshalJSON\<close> and \<open>Time.UnmarshalJSON\<close>, which write and read the RFC 3339
  form with nanoseconds. An instant is a number of nanoseconds since the Unix epoch; its location is the
  offset from UTC in minutes. The calendar is the proleptic Gregorian one.
\<close>

section \<open>Calendar\<close>

definition leap :: "int \<Rightarrow> bool" where
  "leap y = (y mod 4 = 0 \<and> (y mod 100 \<noteq> 0 \<or> y mod 400 = 0))"

definition year_days :: "int \<Rightarrow> int" where
  "year_days y = (if leap y then 366 else 365)"

text \<open>The days from the first day of year 0 to the first day of year \<open>y\<close>.\<close>

definition days_before :: "int \<Rightarrow> int" where
  "days_before y = 365 * y + (y + 3) div 4 - (y + 99) div 100 + (y + 399) div 400"

lemma days_before_0 [simp]: "days_before 0 = 0"
  by (simp add: days_before_def)

lemma div_up:
  fixes y n :: int
  assumes n: "0 < n" "n \<noteq> 0"
  shows "(y + n) div n = (y + n - 1) div n + (if y mod n = 0 then 1 else 0)"
proof -
  have y: "y = n * (y div n) + y mod n" by simp
  have m: "0 \<le> y mod n" "y mod n < n" using n by simp_all
  show ?thesis
  proof (cases "y mod n = 0")
    case True
    have "y + n - 1 = n * (y div n) + (n - 1)" using y True by linarith
    then have "(y + n - 1) div n = y div n" by (rule int_div_pos_eq) (use n in simp_all)
    with True show ?thesis by (simp only: div_add_self2 [OF n(2)]) simp
  next
    case False
    have "y + n - 1 = n * (y div n + 1) + (y mod n - 1)" using y by (simp add: distrib_left)
    then have "(y + n - 1) div n = y div n + 1" by (rule int_div_pos_eq) (use m False in simp_all)
    with False show ?thesis by (simp only: div_add_self2 [OF n(2)]) simp
  qed
qed

lemma leap_cases: "y mod 400 = 0 \<Longrightarrow> y mod 100 = 0" "y mod 100 = 0 \<Longrightarrow> y mod 4 = 0" for y :: int
proof -
  show "y mod 100 = 0" if "y mod 400 = 0"
    using mod_mod_cancel [of 100 400 y] that by simp
  show "y mod 4 = 0" if "y mod 100 = 0"
    using mod_mod_cancel [of 4 100 y] that by simp
qed

lemma days_before_step: "days_before (y + 1) = days_before y + year_days y"
proof -
  have e: "y + 4 - 1 = y + 3" "y + 100 - 1 = y + 99" "y + 400 - 1 = y + 399"
      "y + 1 + 3 = y + 4" "y + 1 + 99 = y + 100" "y + 1 + 399 = y + 400"
    by simp_all
  define a b c where abc: "a = (y + 3) div 4" "b = (y + 99) div 100" "c = (y + 399) div 400"
  define u v w :: int where uvw: "u = (if y mod 4 = 0 then 1 else 0)"
    "v = (if y mod 100 = 0 then 1 else 0)" "w = (if y mod 400 = 0 then 1 else 0)"
  have "(y + 4) div 4 = a + u" "(y + 100) div 100 = b + v" "(y + 400) div 400 = c + w"
    unfolding abc uvw by (rule div_up [of 4 y, unfolded e] div_up [of 100 y, unfolded e]
        div_up [of 400 y, unfolded e]; rule zero_less_numeral zero_neq_numeral [symmetric])+
  then have "days_before (y + 1) = 365 * (y + 1) + (a + u) - (b + v) + (c + w)"
    unfolding days_before_def e by (simp only:)
  moreover have "days_before y = 365 * y + a - b + c" unfolding days_before_def abc by (rule refl)
  moreover have "year_days y = 365 + u - v + w"
    using leap_cases [of y] unfolding year_days_def leap_def uvw
    by (cases "y mod 400 = 0"; cases "y mod 100 = 0"; cases "y mod 4 = 0"; simp only: simp_thms if_True if_False)
  ultimately show ?thesis by simp
qed

lemma year_days_pos: "0 < year_days y"
  by (simp add: year_days_def)

lemma days_before_mono: "y \<le> z \<Longrightarrow> days_before y \<le> days_before z"
proof (induction z rule: int_ge_induct)
  case (step z)
  then show ?case using days_before_step [of z] year_days_pos [of z] by simp
qed simp

lemma days_before_le: "0 \<le> y \<Longrightarrow> days_before y \<le> 366 * y"
proof (induction y rule: int_ge_induct)
  case (step y)
  then show ?case using days_before_step [of y] by (simp add: year_days_def)
qed simp

text \<open>The year of a day, from an estimate that is not too late.\<close>

function year_from :: "int \<Rightarrow> int \<Rightarrow> int" where
  "year_from y d = (if days_before (y + 1) \<le> d then year_from (y + 1) d else y)"
  by pat_completeness auto
termination
proof (relation "measure (\<lambda>(y, d). nat (d - days_before y))")
  fix y d :: int
  assume "days_before (y + 1) \<le> d"
  with days_before_step [of y] year_days_pos [of y]
  show "((y + 1, d), y, d) \<in> measure (\<lambda>(y, d). nat (d - days_before y))" by simp
qed simp

declare year_from.simps [simp del]

lemma year_from: "days_before y \<le> d \<Longrightarrow>
    days_before (year_from y d) \<le> d \<and> d < days_before (year_from y d + 1) \<and> y \<le> year_from y d"
  by (induction y d rule: year_from.induct) (subst (1 2 3) year_from.simps, auto)

definition year_of :: "int \<Rightarrow> int" where
  "year_of d = year_from (d div 366) d"

lemma year_of_bounds:
  assumes "0 \<le> d"
  shows "days_before (year_of d) \<le> d" and "d < days_before (year_of d + 1)" and "0 \<le> year_of d"
proof -
  have "days_before (d div 366) \<le> 366 * (d div 366)" using assms by (intro days_before_le) simp
  also have "\<dots> \<le> d" using mult_div_mod_eq [of 366 d] pos_mod_sign [of 366 d] by linarith
  finally have "days_before (d div 366) \<le> d" .
  from year_from [OF this] assms
  show "days_before (year_of d) \<le> d" "d < days_before (year_of d + 1)" "0 \<le> year_of d"
    by (auto simp: year_of_def intro: order_trans [rotated])
qed

lemma year_of_range: "0 \<le> d \<Longrightarrow> d < days_before 10000 \<Longrightarrow> year_of d \<le> 9999"
  using days_before_mono [of 10000 "year_of d"] year_of_bounds [of d] by (cases "10000 \<le> year_of d") auto

text \<open>Month and day of a day of the year.\<close>

definition month_days :: "int \<Rightarrow> int list" where
  "month_days y = [31, if leap y then 29 else 28, 31, 30, 31, 30, 31, 31, 30, 31, 30, 31]"

fun month_from :: "int \<Rightarrow> int list \<Rightarrow> int \<Rightarrow> int \<times> int" where
  "month_from m [] d = (m, d + 1)"
| "month_from m (l # ls) d = (if d < l \<or> ls = [] then (m, d + 1) else month_from (m + 1) ls (d - l))"

lemma month_from: "month_from m ls d = (n, x) \<Longrightarrow> 0 \<le> d \<Longrightarrow> d < sum_list ls \<Longrightarrow>
    m \<le> n \<and> nat (n - m) < length ls \<and> 1 \<le> x \<and> x \<le> ls ! nat (n - m)
      \<and> sum_list (take (nat (n - m)) ls) + x - 1 = d"
proof (induction m ls d rule: month_from.induct)
  case (2 m l ls d)
  show ?case
  proof (cases "d < l \<or> ls = []")
    case True
    with 2 show ?thesis by auto
  next
    case False
    with 2 have *: "m + 1 \<le> n \<and> nat (n - (m + 1)) < length ls \<and> 1 \<le> x \<and> x \<le> ls ! nat (n - (m + 1))
        \<and> sum_list (take (nat (n - (m + 1))) ls) + x - 1 = d - l"
      by (intro "2.IH") auto
    then have "nat (n - m) = Suc (nat (n - (m + 1)))" by arith
    with * show ?thesis by simp
  qed
qed simp

lemma month_days_sum: "sum_list (month_days y) = year_days y" "length (month_days y) = 12"
  by (simp_all add: month_days_def year_days_def)

section \<open>Fields\<close>

text \<open>An unsigned decimal of a fixed number of digits, and the reading of one, within its bounds.\<close>

fun pad :: "nat \<Rightarrow> int \<Rightarrow> string" where
  "pad 0 i = []"
| "pad (Suc n) i = pad n (i div 10) @ [''0123456789'' ! nat (i mod 10)]"

definition digit_val :: "char \<Rightarrow> int" where
  "digit_val c = int (byte_val c) - 48"

definition parse_uint :: "string \<Rightarrow> int \<Rightarrow> int \<Rightarrow> int option" where
  "parse_uint s lo hi =
     (if list_all is_digit s \<and> s \<noteq> [] then
        (let v = fold (\<lambda>c v. v * 10 + digit_val c) s 0 in if lo \<le> v \<and> v \<le> hi then Some v else None)
      else None)"

lemma digit_of: "0 \<le> i \<Longrightarrow> i < 10 \<Longrightarrow>
    is_digit (''0123456789'' ! nat i) \<and> digit_val (''0123456789'' ! nat i) = i"
proof -
  assume "0 \<le> i" "i < 10"
  then have "nat i \<in> set [0..<10]" and i: "int (nat i) = i" by simp_all
  moreover have "\<forall>m \<in> set [0..<10]. is_digit (''0123456789'' ! m) \<and> digit_val (''0123456789'' ! m) = int m"
    by (simp add: upt_rec is_digit_def digit_val_def)
  ultimately show ?thesis by metis
qed

lemma pad_digits: "list_all is_digit (pad n i)" "length (pad n i) = n"
  using digit_of [of "i mod 10" for i] by (induction n arbitrary: i) simp_all

lemma fold_pad: "0 \<le> i \<Longrightarrow> i < 10 ^ n \<Longrightarrow> fold (\<lambda>c v. v * 10 + digit_val c) (pad n i) 0 = i"
proof (induction n arbitrary: i)
  case (Suc n)
  then have "i div 10 < 10 ^ n" by (simp add: div_less_iff_less_mult mult.commute)
  with Suc digit_of [of "i mod 10"] show ?case by (simp add: pos_imp_zdiv_nonneg_iff)
qed simp

lemma parse_uint_pad [simp]: "0 < n \<Longrightarrow> 0 \<le> i \<Longrightarrow> i < 10 ^ n \<Longrightarrow> lo \<le> i \<Longrightarrow> i \<le> hi \<Longrightarrow>
    parse_uint (pad n i) lo hi = Some i"
  using pad_digits [of n i] by (auto simp: parse_uint_def fold_pad simp flip: length_0_conv)

section \<open>RFC 3339\<close>

abbreviation nanos_per_day :: int where "nanos_per_day \<equiv> 86400000000000"
abbreviation unix_epoch_days :: int where "unix_epoch_days \<equiv> 719528"

text \<open>Nanoseconds without trailing zeros, or nothing.\<close>

definition fraction_text :: "int \<Rightarrow> string" where
  "fraction_text ns =
     (let ds = rev (dropWhile (\<lambda>c. c = CHR ''0'') (rev (pad 9 ns))) in
      if ds = [] then [] else CHR ''.'' # ds)"

definition zone_text :: "int \<Rightarrow> string" where
  "zone_text off =
     (if off = 0 then ''Z''
      else (if off < 0 then ''-'' else ''+'') @ pad 2 (\<bar>off\<bar> div 60) @ '':'' @ pad 2 (\<bar>off\<bar> mod 60))"

definition date_text :: "int \<Rightarrow> string" where
  "date_text d =
     (let y = year_of d; (m, dd) = month_from 1 (month_days y) (d - days_before y)
      in pad 4 y @ ''-'' @ pad 2 m @ ''-'' @ pad 2 dd)"

definition clock_text :: "int \<Rightarrow> string" where
  "clock_text s = pad 2 (s div 3600) @ '':'' @ pad 2 (s div 60 mod 60) @ '':'' @ pad 2 (s mod 60)"

text \<open>\<open>MarshalJSON\<close>: an error if the year has not four digits or the offset is a day or more.\<close>

definition time_text :: "int \<Rightarrow> int \<Rightarrow> string + string" where
  "time_text off t =
     (let l = t + off * 60000000000; d = l div nanos_per_day + unix_epoch_days; r = l mod nanos_per_day in
      if d < 0 \<or> days_before 10000 \<le> d then Inl ''year outside of range [0,9999]''
      else if 1440 \<le> \<bar>off\<bar> then Inl ''timezone hour outside of range [0,23]''
      else Inr (date_text d @ ''T'' @ clock_text (r div 1000000000)
                @ fraction_text (r mod 1000000000) @ zone_text off))"

text \<open>\<open>parseRFC3339\<close>. (Where it fails, \<open>UnmarshalJSON\<close> tries a more lenient reader, which is left out.)\<close>

definition parse_fraction :: "string \<Rightarrow> int \<times> string" where
  "parse_fraction s =
     (case s of
        p # c # r \<Rightarrow>
          if p = CHR ''.'' \<and> is_digit c then
            (let ds = takeWhile is_digit (c # r)
             in (fold (\<lambda>c v. v * 10 + digit_val c) (take 9 (ds @ replicate 9 (CHR ''0''))) 0,
                 dropWhile is_digit (c # r)))
          else (0, s)
      | _ \<Rightarrow> (0, s))"

definition parse_zone :: "string \<Rightarrow> int option" where
  "parse_zone s =
     (if s = ''Z'' then Some 0
      else if length s = 6 \<and> (s ! 0 = CHR ''-'' \<or> s ! 0 = CHR ''+'') \<and> s ! 3 = CHR '':'' then
        (case (parse_uint (take 2 (drop 1 s)) 0 23, parse_uint (take 2 (drop 4 s)) 0 59) of
           (Some h, Some m) \<Rightarrow> Some ((if s ! 0 = CHR ''-'' then -1 else 1) * (h * 60 + m))
         | _ \<Rightarrow> None)
      else None)"

definition parse_date :: "string \<Rightarrow> int option" where
  "parse_date s =
     (if s ! 4 = CHR ''-'' \<and> s ! 7 = CHR ''-'' then
        (case (parse_uint (take 4 s) 0 9999, parse_uint (take 2 (drop 5 s)) 1 12) of
           (Some y, Some m) \<Rightarrow>
             (case parse_uint (take 2 (drop 8 s)) 1 (month_days y ! nat (m - 1)) of
                Some dd \<Rightarrow> Some (days_before y + sum_list (take (nat (m - 1)) (month_days y)) + dd - 1)
              | None \<Rightarrow> None)
         | _ \<Rightarrow> None)
      else None)"

definition parse_clock :: "string \<Rightarrow> int option" where
  "parse_clock s =
     (if s ! 2 = CHR '':'' \<and> s ! 5 = CHR '':'' then
        (case (parse_uint (take 2 s) 0 23, parse_uint (take 2 (drop 3 s)) 0 59,
               parse_uint (take 2 (drop 6 s)) 0 59) of
           (Some h, Some m, Some x) \<Rightarrow> Some (h * 3600 + m * 60 + x)
         | _ \<Rightarrow> None)
      else None)"

definition parse_time :: "string \<Rightarrow> int option" where
  "parse_time s =
     (if length s < 19 \<or> s ! 10 \<noteq> CHR ''T'' then None
      else
        (case (parse_date (take 10 s), parse_clock (take 8 (drop 11 s)), parse_fraction (drop 19 s)) of
           (Some d, Some c, ns, z) \<Rightarrow>
             (case parse_zone z of
                Some off \<Rightarrow>
                  Some ((d - unix_epoch_days) * nanos_per_day + c * 1000000000 + ns - off * 60000000000)
              | None \<Rightarrow> None)
         | _ \<Rightarrow> None))"

section \<open>Round trip\<close>

lemma date_text_length: "length (date_text d) = 10" "length (clock_text s) = 8"
  by (simp_all add: date_text_def clock_text_def pad_digits split_beta Let_def)

lemma date_round_trip:
  assumes "0 \<le> d" and "d < days_before 10000"
  shows "parse_date (date_text d) = Some d"
proof -
  define y where "y = year_of d"
  obtain m dd where m: "month_from 1 (month_days y) (d - days_before y) = (m, dd)"
    by (cases "month_from 1 (month_days y) (d - days_before y)")
  have y: "days_before y \<le> d" "d < days_before (y + 1)" "0 \<le> y" "y \<le> 9999"
    using year_of_bounds [OF assms(1)] year_of_range [OF assms] by (simp_all add: y_def)
  have md: "1 \<le> m" "m \<le> 12" "1 \<le> dd" "dd \<le> month_days y ! nat (m - 1)"
      "sum_list (take (nat (m - 1)) (month_days y)) + dd - 1 = d - days_before y"
    using month_from [OF m] y days_before_step [of y] by (auto simp: month_days_sum)
  have "month_days y ! nat (m - 1) \<in> set (month_days y)"
    using md(1,2) by (intro nth_mem) (simp add: month_days_sum)
  then have "dd < 100" using md(4) by (auto simp: month_days_def split: if_splits)
  have dt: "date_text d = pad 4 y @ ''-'' @ pad 2 m @ ''-'' @ pad 2 dd"
    by (simp add: date_text_def m flip: y_def)
  show ?thesis unfolding dt parse_date_def
    using y(3,4) md \<open>dd < 100\<close> by (simp add: pad_digits nth_append)
qed

lemma clock_fields:
  assumes "0 \<le> h" "h \<le> 23" "0 \<le> m" "m \<le> 59" "0 \<le> x" "x \<le> 59"
  shows "parse_clock (pad 2 h @ '':'' @ pad 2 m @ '':'' @ pad 2 x) = Some (h * 3600 + m * 60 + x)"
  unfolding parse_clock_def using assms by (simp add: pad_digits nth_append)

lemma clock_round_trip:
  assumes "0 \<le> s" and "s < 86400"
  shows "parse_clock (clock_text s) = Some s"
proof -
  have h: "0 \<le> s div 3600" "s div 3600 \<le> 23" using assms by auto
  have b: "0 \<le> s div 60 mod 60" "s div 60 mod 60 \<le> 59" "0 \<le> s mod 60" "s mod 60 \<le> 59"
    using pos_mod_bound [of 60 s] pos_mod_bound [of 60 "s div 60"] by simp_all
  have "s div 60 div 60 = s div 3600" by (simp flip: zdiv_zmult2_eq)
  then have "s div 3600 * 3600 + s div 60 mod 60 * 60 + s mod 60 = s"
    using mult_div_mod_eq [of 60 s] mult_div_mod_eq [of 60 "s div 60"] by linarith
  with clock_fields [OF h b] show ?thesis unfolding clock_text_def by simp
qed

text \<open>Trimming the zeros of the fraction, and padding it with zeros again.\<close>

lemma trim_zeros:
  obtains k where "ds = rev (dropWhile (\<lambda>c. c = z) (rev ds)) @ replicate k z"
proof -
  have "rev ds = takeWhile (\<lambda>c. c = z) (rev ds) @ dropWhile (\<lambda>c. c = z) (rev ds)" by simp
  moreover have "takeWhile (\<lambda>c. c = z) (rev ds) = replicate (length (takeWhile (\<lambda>c. c = z) (rev ds))) z"
    by (rule replicate_eqI [symmetric, THEN sym]) (auto dest: set_takeWhileD)
  ultimately have "ds = rev (dropWhile (\<lambda>c. c = z) (rev ds))
      @ replicate (length (takeWhile (\<lambda>c. c = z) (rev ds))) z"
    by (metis rev_append rev_replicate rev_rev_ident)
  then show ?thesis by (rule that)
qed

lemma takeWhile_all: "list_all P ds \<Longrightarrow> (z = [] \<or> \<not> P (hd z)) \<Longrightarrow>
    takeWhile P (ds @ z) = ds \<and> dropWhile P (ds @ z) = z"
  by (induction ds) (cases z; auto)+

lemma fold_zeros: "fold (\<lambda>c v. v * 10 + digit_val c) (replicate n (CHR ''0'')) 0 = 0"
  by (induction n) (simp_all add: digit_val_def)

lemma fraction_round_trip:
  assumes "0 \<le> ns" and "ns < 1000000000" and "z \<noteq> []" and "\<not> is_digit (hd z)" and "hd z \<noteq> CHR ''.''"
  shows "parse_fraction (fraction_text ns @ z) = (ns, z)"
proof -
  define ds where "ds = rev (dropWhile (\<lambda>c. c = CHR ''0'') (rev (pad 9 ns)))"
  obtain k where k: "pad 9 ns = ds @ replicate k (CHR ''0'')"
    unfolding ds_def by (rule trim_zeros)
  have val: "fold (\<lambda>c v. v * 10 + digit_val c) (pad 9 ns) 0 = ns"
    using assms(1,2) by (intro fold_pad) simp_all
  have len: "length ds + k = 9" using k pad_digits(2) [of 9 ns] by (metis length_append length_replicate)
  have dig: "list_all is_digit ds" using pad_digits(1) [of 9 ns] k by simp
  show ?thesis
  proof (cases ds)
    case Nil
    then have "pad 9 ns = replicate 9 (CHR ''0'')" using k len by simp
    then have "ns = 0" using val by (simp only: fold_zeros)
    moreover have "fraction_text ns = []" using Nil by (simp add: fraction_text_def flip: ds_def)
    ultimately show ?thesis
      using assms(3,5) by (auto simp: parse_fraction_def split: list.splits)
  next
    case (Cons c r)
    have "take 9 (ds @ replicate 9 (CHR ''0'')) = pad 9 ns"
      using len by (simp add: k)
    moreover have "parse_fraction (fraction_text ns @ z)
        = (fold (\<lambda>c v. v * 10 + digit_val c) (take 9 (ds @ replicate 9 (CHR ''0''))) 0, z)"
      using takeWhile_all [OF dig, of z] assms(4) dig Cons
      by (simp add: parse_fraction_def fraction_text_def Let_def flip: ds_def)
    ultimately show ?thesis by (simp only: val)
  qed
qed

lemma zone_text_start: "zone_text off \<noteq> []" "\<not> is_digit (hd (zone_text off))" "hd (zone_text off) \<noteq> CHR ''.''"
  by (auto simp: zone_text_def is_digit_def)

lemma zone_round_trip:
  assumes "\<bar>off\<bar> < 1440"
  shows "parse_zone (zone_text off) = Some off"
proof (cases "off = 0")
  case True
  then show ?thesis by (simp add: zone_text_def parse_zone_def)
next
  case False
  define h m where hm: "h = \<bar>off\<bar> div 60" "m = \<bar>off\<bar> mod 60"
  have b: "0 \<le> h" "h \<le> 23" "0 \<le> m" "m \<le> 59" "h * 60 + m = \<bar>off\<bar>"
    using assms pos_mod_bound [of 60 "\<bar>off\<bar>"] mult_div_mod_eq [of 60 "\<bar>off\<bar>"] unfolding hm
    by (auto simp: div_less_iff_less_mult)
  have zt: "zone_text off = (if off < 0 then CHR ''-'' else CHR ''+'') # pad 2 h @ '':'' @ pad 2 m"
    using False by (simp add: zone_text_def hm)
  show ?thesis using b unfolding zt parse_zone_def
    by (auto simp: pad_digits nth_append)
qed

text \<open>An instant that can be written is read back as the same instant.\<close>

theorem time_round_trip:
  assumes "time_text off t = Inr s"
  shows "parse_time s = Some t"
proof -
  define l where "l = t + off * 60000000000"
  define d r where dr: "d = l div nanos_per_day + unix_epoch_days" "r = l mod nanos_per_day"
  have s: "s = date_text d @ ''T'' @ clock_text (r div 1000000000)
      @ fraction_text (r mod 1000000000) @ zone_text off"
    and d: "0 \<le> d" "d < days_before 10000" and off: "\<bar>off\<bar> < 1440"
    using assms by (auto simp: time_text_def Let_def simp flip: l_def dr split: if_splits)
  have r: "0 \<le> r" "r < nanos_per_day" by (simp_all add: dr)
  have c: "0 \<le> r div 1000000000" "r div 1000000000 < 86400"
    using r by (simp_all add: pos_imp_zdiv_nonneg_iff div_less_iff_less_mult)
  have f: "0 \<le> r mod 1000000000" "r mod 1000000000 < 1000000000" by simp_all
  have "(d - unix_epoch_days) * nanos_per_day + r = l"
    using mult_div_mod_eq [of nanos_per_day l] by (simp add: dr mult.commute)
  moreover have "r div 1000000000 * 1000000000 + r mod 1000000000 = r" by (rule div_mult_mod_eq)
  ultimately have t: "(d - unix_epoch_days) * nanos_per_day + r div 1000000000 * 1000000000
      + r mod 1000000000 - off * 60000000000 = t"
    by (simp only: l_def)
  show ?thesis unfolding parse_time_def s
    using date_round_trip [OF d] clock_round_trip [OF c] zone_round_trip [OF off]
      fraction_round_trip [OF f zone_text_start] t
    by (simp add: date_text_length nth_append)
qed

end
