(* ===== verification/Errors.thy ===== *)
theory Errors
  imports Go_Json
begin

text \<open>
  The error values of the library (\<open>errors.go\<close>) and their mapping to OpenID4VP error responses at
  the wallet boundary (\<open>errorresponse.go\<close>).

  An error value is a sentinel, a \<open>*WalletError\<close>, an error of another package, or the value
  \<open>fmt.Errorf\<close> builds: the operands of its \<open>%w\<close> verbs and the texts of its other verbs (the fixed
  text of the format is left out). \<open>errors.Is\<close> and \<open>errors.As\<close> walk that tree. Errors of other
  packages do not wrap the sentinels of this one.
\<close>

section \<open>Error values\<close>

datatype sentinel =
    ErrSessionInvalid | ErrSessionNotFound | ErrSessionExpired | ErrSessionConsumed
  | ErrSessionNotConsumed
  | ErrConfig | ErrSANMismatch | ErrUnsupportedClientIDPrefix | ErrSpec | ErrNoRegistration
  | ErrFlowMismatch
  | ErrRequestURIConsumed | ErrWalletMetadataInvalid
  | ErrBodyTooLarge | ErrMalformedResponse | ErrDecrypt | ErrStateMismatch | ErrAPVMismatch
  | ErrUnknownCredentialID
  | ErrNoResponseCode | ErrResponseCodeMismatch | ErrResponseCodeConsumed
  | ErrOriginNotExpected
  | ErrTransactionDataDisabled | ErrTransactionDataInvalid | ErrTransactionDataMissing
  | ErrTransactionDataUnexpected | ErrTransactionDataMismatch
  | ErrTranscriptParams

record wallet_error =
  WE_Code :: string
  WE_Description :: string

datatype err =
    Sentinel sentinel
  | WalletError wallet_error
  | Foreign string
  | Errorf "err list" "string list"

text \<open>\<open>fmt.Errorf("%w: ...", s)\<close> with quoted texts, and \<open>fmt.Errorf("%w: ...: %w", s, err)\<close>.\<close>

definition failq :: "sentinel \<Rightarrow> string list \<Rightarrow> err" where
  "failq s qs = Errorf [Sentinel s] qs"

definition failw :: "sentinel \<Rightarrow> err \<Rightarrow> err" where
  "failw s e = Errorf [Sentinel s, e] []"

fun errors_is :: "err \<Rightarrow> sentinel \<Rightarrow> bool" where
  "errors_is (Sentinel t) s = (t = s)"
| "errors_is (WalletError w) s = False"
| "errors_is (Foreign f) s = False"
| "errors_is (Errorf es qs) s = list_ex (\<lambda>e. errors_is e s) es"

fun errors_as_wallet :: "err \<Rightarrow> wallet_error option" where
  "errors_as_wallet (Sentinel t) = None"
| "errors_as_wallet (WalletError w) = Some w"
| "errors_as_wallet (Foreign f) = None"
| "errors_as_wallet (Errorf es qs) =
     (case filter (\<lambda>x. x \<noteq> None) (map errors_as_wallet es) of [] \<Rightarrow> None | x # _ \<Rightarrow> x)"

text \<open>The sentinels an error value carries, and the texts it quotes, those of wrapped foreign errors included.\<close>

fun sentinels :: "err \<Rightarrow> sentinel list" where
  "sentinels (Sentinel t) = [t]"
| "sentinels (WalletError w) = []"
| "sentinels (Foreign f) = []"
| "sentinels (Errorf es qs) = concat (map sentinels es)"

fun quoted :: "err \<Rightarrow> string list" where
  "quoted (Sentinel t) = []"
| "quoted (WalletError w) = []"
| "quoted (Foreign f) = [f]"
| "quoted (Errorf es qs) = qs @ concat (map quoted es)"

lemma errors_is_sentinels [simp]: "errors_is e s \<longleftrightarrow> s \<in> set (sentinels e)"
  by (induction e s rule: errors_is.induct) (auto simp: list_ex_iff)

lemma sentinels_fail [simp]:
  "sentinels (failq s qs) = [s]"
  "sentinels (failw s e) = s # sentinels e"
  by (simp_all add: failq_def failw_def)

lemma quoted_fail [simp]:
  "quoted (failq s qs) = qs"
  "quoted (failw s e) = quoted e"
  by (simp_all add: failq_def failw_def)

lemma errors_as_wallet_fail [simp]:
  "errors_as_wallet (failq s qs) = None"
  "errors_as_wallet (failw s (Foreign f)) = None"
  by (simp_all add: failq_def failw_def)

section \<open>Error responses\<close>

definition errInvalidRequest :: string where "errInvalidRequest = ''invalid_request''"
definition errInvalidClient :: string where "errInvalidClient = ''invalid_client''"
definition errAccessDenied :: string where "errAccessDenied = ''access_denied''"
definition errVPFormatsNotSupported :: string where
  "errVPFormatsNotSupported = ''vp_formats_not_supported''"
definition errInvalidRequestURI :: string where "errInvalidRequestURI = ''invalid_request_uri''"
definition errInvalidRequestObject :: string where
  "errInvalidRequestObject = ''invalid_request_object''"
definition errServer :: string where "errServer = ''server_error''"

lemmas error_code_defs = errInvalidRequest_def errInvalidClient_def errAccessDenied_def
  errVPFormatsNotSupported_def errInvalidRequestURI_def errInvalidRequestObject_def errServer_def

record sentinelMapping =
  sm_sentinel :: sentinel
  sm_status :: int
  sm_code :: string
  sm_desc :: string

definition row :: "sentinel \<Rightarrow> int \<Rightarrow> string \<Rightarrow> string \<Rightarrow> sentinelMapping" where
  "row s st c d = \<lparr>sm_sentinel = s, sm_status = st, sm_code = c, sm_desc = d\<rparr>"

definition errorTable :: "sentinelMapping list" where
  "errorTable =
     [row ErrSessionNotFound 404 errInvalidRequest ''unknown or expired session'',
      row ErrSessionExpired 404 errInvalidRequest ''session expired'',
      row ErrSessionConsumed 400 errInvalidRequest ''response already received'',
      row ErrRequestURIConsumed 400 errInvalidRequestURI ''request already retrieved'',
      row ErrWalletMetadataInvalid 400 errInvalidRequest ''wallet metadata rejected'',
      row ErrBodyTooLarge 400 errInvalidRequest ''response too large'',
      row ErrMalformedResponse 400 errInvalidRequest ''malformed response'',
      row ErrDecrypt 400 errInvalidRequest ''response could not be decrypted'',
      row ErrStateMismatch 400 errInvalidRequest ''state binding failed'',
      row ErrAPVMismatch 400 errInvalidRequest ''response nonce binding failed'',
      row ErrUnknownCredentialID 400 errInvalidRequest ''unexpected credential in response'',
      row ErrOriginNotExpected 400 errInvalidClient ''origin not allowed'',
      row ErrResponseCodeMismatch 400 errInvalidRequest ''response code binding failed'',
      row ErrResponseCodeConsumed 400 errInvalidRequest ''response code already used'',
      row ErrNoResponseCode 400 errInvalidRequest ''no response code for session'',
      row ErrTransactionDataMismatch 400 errInvalidRequest ''transaction data binding failed'',
      row ErrTransactionDataMissing 400 errInvalidRequest ''transaction data not confirmed'',
      row ErrTransactionDataUnexpected 400 errInvalidRequest ''unexpected transaction data'',
      row ErrFlowMismatch 400 errInvalidRequest ''wrong endpoint for this session'',
      row ErrNoRegistration 500 errServer ''internal error'',
      row ErrConfig 500 errServer ''internal error'',
      row ErrSpec 500 errServer ''internal error'',
      row ErrSessionInvalid 500 errServer ''internal error'',
      row ErrSessionNotConsumed 500 errServer ''internal error'',
      row ErrTranscriptParams 500 errServer ''internal error'',
      row ErrTransactionDataDisabled 500 errServer ''internal error'',
      row ErrTransactionDataInvalid 500 errServer ''internal error'',
      row ErrSANMismatch 500 errServer ''internal error'',
      row ErrUnsupportedClientIDPrefix 500 errServer ''internal error'']"

definition normalizeWalletCode :: "string \<Rightarrow> string" where
  "normalizeWalletCode code =
     (if code = errAccessDenied \<or> code = errInvalidRequest \<or> code = errInvalidClient
         \<or> code = errVPFormatsNotSupported \<or> code = errInvalidRequestURI
         \<or> code = errInvalidRequestObject
      then code else errInvalidRequest)"

definition serialize :: "int \<Rightarrow> string \<Rightarrow> string \<Rightarrow> int \<times> bytes" where
  "serialize status code desc =
     (status, json_print (json_map [(''error'', JStr code), (''error_description'', JStr desc)]))"

definition ErrorResponse :: "err option \<Rightarrow> int \<times> bytes" where
  "ErrorResponse eo =
     (case eo of
        None \<Rightarrow> serialize 500 errServer ''internal error''
      | Some e \<Rightarrow>
          (case errors_as_wallet e of
             Some we \<Rightarrow>
               serialize 400 (normalizeWalletCode (WE_Code we)) ''wallet reported an error''
           | None \<Rightarrow>
               (case find (\<lambda>m. errors_is e (sm_sentinel m)) errorTable of
                  Some m \<Rightarrow> serialize (sm_status m) (sm_code m) (sm_desc m)
                | None \<Rightarrow> serialize 500 errServer ''internal error'')))"

section \<open>The table\<close>

lemma row_sel [simp]:
  "sm_sentinel (row s st c d) = s" "sm_status (row s st c d) = st"
  "sm_code (row s st c d) = c" "sm_desc (row s st c d) = d"
  by (simp_all add: row_def)

lemma errorTable_distinct: "distinct (map sm_sentinel errorTable)"
  by code_simp

lemma errorTable_sentinels: "map sm_sentinel errorTable =
   [ErrSessionNotFound, ErrSessionExpired, ErrSessionConsumed, ErrRequestURIConsumed,
    ErrWalletMetadataInvalid, ErrBodyTooLarge, ErrMalformedResponse, ErrDecrypt, ErrStateMismatch,
    ErrAPVMismatch, ErrUnknownCredentialID, ErrOriginNotExpected, ErrResponseCodeMismatch,
    ErrResponseCodeConsumed, ErrNoResponseCode, ErrTransactionDataMismatch,
    ErrTransactionDataMissing, ErrTransactionDataUnexpected, ErrFlowMismatch, ErrNoRegistration,
    ErrConfig, ErrSpec, ErrSessionInvalid, ErrSessionNotConsumed, ErrTranscriptParams,
    ErrTransactionDataDisabled, ErrTransactionDataInvalid, ErrSANMismatch,
    ErrUnsupportedClientIDPrefix]"
  by (simp add: errorTable_def)

lemma errorTable_total: "\<exists>m \<in> set errorTable. sm_sentinel m = s"
proof -
  have "s \<in> set (map sm_sentinel errorTable)"
    unfolding errorTable_sentinels by (cases s) simp_all
  then show ?thesis by auto
qed

lemma find_row: "m \<in> set errorTable \<Longrightarrow> find (\<lambda>x. sm_sentinel x = sm_sentinel m) errorTable = Some m"
  by (rule find_unique [OF errorTable_distinct]) simp_all

text \<open>The row of a sentinel.\<close>

definition rowOf :: "sentinel \<Rightarrow> sentinelMapping" where
  "rowOf s = the (find (\<lambda>x. sm_sentinel x = s) errorTable)"

lemma rowOf_props: "rowOf s \<in> set errorTable \<and> sm_sentinel (rowOf s) = s"
  using errorTable_total [of s] find_row by (auto simp: rowOf_def)

text \<open>An error of the library: one sentinel at most, and then no wallet error.\<close>

definition lib_err :: "err \<Rightarrow> bool" where
  "lib_err e \<longleftrightarrow> (\<exists>s. sentinels e = [s] \<and> errors_as_wallet e = None)
     \<or> sentinels e = []"

lemma lib_err_intros [intro, simp]:
  "lib_err (Sentinel s)" "lib_err (failq s qs)" "lib_err (failw s (Foreign f))"
  "lib_err (WalletError w)" "lib_err (Foreign f)"
  by (simp_all add: lib_err_def)

lemma find_single: "sentinels e = [s] \<Longrightarrow>
    find (\<lambda>m. errors_is e (sm_sentinel m)) errorTable = Some (rowOf s)"
  using find_row [of "rowOf s"] rowOf_props [of s] by simp

section \<open>What an error response says\<close>

text \<open>Everything an error response can be: status, code and description.\<close>

definition catalogue :: "(int \<times> string \<times> string) list" where
  "catalogue =
     (500, errServer, ''internal error'')
     # map (\<lambda>c. (400, c, ''wallet reported an error''))
         [errAccessDenied, errInvalidRequest, errInvalidClient, errVPFormatsNotSupported,
          errInvalidRequestURI, errInvalidRequestObject]
     @ map (\<lambda>m. (sm_status m, sm_code m, sm_desc m)) errorTable"

definition plain_body :: "string \<Rightarrow> string \<Rightarrow> bytes" where
  \<open>plain_body code desc =
     ''{"error":"'' @ code @ ''","error_description":"'' @ desc @ ''"}''\<close>

definition client_or_server :: "int \<Rightarrow> string \<Rightarrow> bool" where
  "client_or_server st c \<longleftrightarrow> st \<in> {400, 404, 500} \<and> (st = 500 \<longleftrightarrow> c = errServer)"

text \<open>Text of lower-case letters, underscores and spaces is not changed by the encoder.\<close>

definition plain_chars :: string where
  "plain_chars = ''_ abcdefghijklmnopqrstuvwxyz''"

definition plain_text :: "string \<Rightarrow> bool" where
  "plain_text s = list_all (\<lambda>c. c \<in> set plain_chars) s"

lemma plain_text_chars:
  "c \<in> set plain_chars \<Longrightarrow> byte_val c < 128 \<and> escape_ascii c = [c]"
proof -
  have "list_all (\<lambda>c. byte_val c < 128 \<and> escape_ascii c = [c]) plain_chars" by code_simp
  then show "c \<in> set plain_chars \<Longrightarrow> byte_val c < 128 \<and> escape_ascii c = [c]"
    by (simp only: list_all_iff)
qed

lemma escape_plain: "plain_text s \<Longrightarrow> escape_string s = s"
proof (induction s)
  case (Cons c s)
  then show ?case using plain_text_chars [of c] by (simp add: plain_text_def)
qed simp

lemma serialize_plain:
  "plain_text c \<Longrightarrow> plain_text d \<Longrightarrow> serialize st c d = (st, plain_body c d)"
proof -
  have keys: "escape_string ''error'' = ''error''"
    "escape_string ''error_description'' = ''error_description''"
    by (rule escape_plain, simp add: plain_text_def plain_chars_def)+
  have "json_map [(''error'', JStr c), (''error_description'', JStr d)]
      = JObj [(''error'', JStr c), (''error_description'', JStr d)]"
    by (simp add: json_map_def)
  then show "plain_text c \<Longrightarrow> plain_text d \<Longrightarrow> serialize st c d = (st, plain_body c d)"
    by (simp add: serialize_def plain_body_def print_string_def escape_plain keys
        del: escape_string.simps)
qed

lemma catalogue_plain:
  "list_all (\<lambda>(st, c, d). serialize st c d = (st, plain_body c d)) catalogue"
proof -
  have "list_all (\<lambda>(st, c, d). plain_text c \<and> plain_text d) catalogue" by code_simp
  then show ?thesis by (auto simp: list_all_iff intro!: serialize_plain)
qed

lemma catalogue_status: "list_all (\<lambda>(st, c, d). client_or_server st c) catalogue"
  by code_simp

lemma catalogue_rows: "m \<in> set errorTable \<Longrightarrow> (sm_status m, sm_code m, sm_desc m) \<in> set catalogue"
  by (simp add: catalogue_def)

lemma normalizeWalletCode_in:
  "(400, normalizeWalletCode c, ''wallet reported an error'') \<in> set catalogue"
  by (simp add: normalizeWalletCode_def catalogue_def)

lemma ErrorResponse_serialize:
  "\<exists>st c d. ErrorResponse eo = serialize st c d \<and> (st, c, d) \<in> set catalogue"
proof -
  have fallback: "(500, errServer, ''internal error'') \<in> set catalogue"
    by (simp add: catalogue_def)
  have "\<exists>st c d. ErrorResponse (Some e) = serialize st c d \<and> (st, c, d) \<in> set catalogue" for e
  proof (cases "errors_as_wallet e")
    case (Some we)
    then show ?thesis using normalizeWalletCode_in by (simp add: ErrorResponse_def) blast
  next
    case None
    show ?thesis
    proof (cases "find (\<lambda>m. errors_is e (sm_sentinel m)) errorTable")
      case (Some m)
      then have "m \<in> set errorTable" by (auto simp: find_Some_iff)
      from catalogue_rows [OF this] Some None show ?thesis
        by (simp only: ErrorResponse_def option.case) blast
    next
      assume "find (\<lambda>m. errors_is e (sm_sentinel m)) errorTable = None"
      with None fallback show ?thesis by (simp only: ErrorResponse_def option.case) blast
    qed
  qed
  moreover have "ErrorResponse None = serialize 500 errServer ''internal error''"
    by (simp add: ErrorResponse_def)
  ultimately show ?thesis using fallback by (cases eo) auto
qed

text \<open>
  C10: The error response leaks nothing. Whatever error value reaches \<open>ErrorResponse\<close>, the body is one
  of the fixed documents of the catalogue, byte for byte, the status is 400, 404 or 500, and it is 500
  exactly when the code is \<open>server_error\<close>.
\<close>

theorem error_response_static:
  "\<exists>st c d. ErrorResponse eo = (st, plain_body c d) \<and> (st, c, d) \<in> set catalogue
     \<and> st \<in> {400, 404, 500} \<and> (st = 500 \<longleftrightarrow> c = errServer)"
proof -
  obtain st c d where "ErrorResponse eo = serialize st c d" and in_cat: "(st, c, d) \<in> set catalogue"
    using ErrorResponse_serialize by blast
  moreover have "serialize st c d = (st, plain_body c d)" and "client_or_server st c"
    using catalogue_plain catalogue_status in_cat by (auto simp: list_all_iff)
  ultimately show ?thesis unfolding client_or_server_def by metis
qed

text \<open>The status a sentinel must have: what the wallet or its user can cause is a client error.\<close>

definition status_spec :: "sentinel \<Rightarrow> int" where
  "status_spec s =
     (if s \<in> {ErrSessionNotFound, ErrSessionExpired} then 404
      else if s \<in> {ErrSessionInvalid, ErrSessionNotConsumed, ErrConfig, ErrSANMismatch,
                  ErrUnsupportedClientIDPrefix, ErrSpec, ErrNoRegistration,
                  ErrTransactionDataDisabled, ErrTransactionDataInvalid, ErrTranscriptParams}
      then 500 else 400)"

lemma rowOf_status: "sm_status (rowOf s) = status_spec s"
proof -
  have "list_all (\<lambda>m. sm_status m = status_spec (sm_sentinel m)) errorTable" by code_simp
  then show ?thesis using rowOf_props [of s] by (auto simp: list_all_iff)
qed

lemma ErrorResponse_single:
  "sentinels e = [s] \<Longrightarrow> errors_as_wallet e = None \<Longrightarrow>
     ErrorResponse (Some e) = serialize (status_spec s) (sm_code (rowOf s)) (sm_desc (rowOf s))"
  using find_single [of e s] by (simp add: ErrorResponse_def rowOf_status)

lemma serialize_status [simp]: "fst (serialize st c d) = st"
  by (simp add: serialize_def)

text \<open>
  Every sentinel has its response, and the response depends on nothing else: an error that wraps
  exactly one sentinel, whatever texts it quotes and whatever error of another package it wraps
  besides, gets the response of the bare sentinel, with the status of \<open>status_spec\<close>.
\<close>

theorem error_response_of_sentinel:
  assumes "sentinels e = [s]" and "errors_as_wallet e = None"
  shows "ErrorResponse (Some e) = ErrorResponse (Some (Sentinel s))
    \<and> fst (ErrorResponse (Some e)) = status_spec s"
  using ErrorResponse_single [OF assms] ErrorResponse_single [of "Sentinel s" s] by simp

theorem error_response_of_sentinel_witness:
  "fst (ErrorResponse (Some (failw ErrDecrypt (Foreign ''bad tag'')))) = 400"
  using error_response_of_sentinel [of "failw ErrDecrypt (Foreign ''bad tag'')" ErrDecrypt]
  by (auto simp: status_spec_def)

text \<open>
  A wallet error always becomes a 400 response; its code is passed on only if it is one of the six
  codes of the protocol and is \<open>invalid_request\<close> otherwise, and its description is never passed on.
\<close>

theorem error_response_of_wallet_error:
  assumes "errors_as_wallet e = Some we"
  shows "ErrorResponse (Some e) = (400, plain_body
      (if WE_Code we \<in> {errAccessDenied, errInvalidRequest, errInvalidClient,
           errVPFormatsNotSupported, errInvalidRequestURI, errInvalidRequestObject}
       then WE_Code we else errInvalidRequest) ''wallet reported an error'')"
proof -
  have "ErrorResponse (Some e)
      = serialize 400 (normalizeWalletCode (WE_Code we)) ''wallet reported an error''"
    using assms by (simp add: ErrorResponse_def)
  also have "\<dots> = (400, plain_body (normalizeWalletCode (WE_Code we)) ''wallet reported an error'')"
    using catalogue_plain normalizeWalletCode_in by (fastforce simp: list_all_iff)
  finally show ?thesis by (simp add: normalizeWalletCode_def)
qed

theorem error_response_of_wallet_error_witness:
  "ErrorResponse (Some (WalletError \<lparr>WE_Code = ''weird'', WE_Description = ''<script>''\<rparr>))
   = (400, plain_body ''invalid_request'' ''wallet reported an error'')"
  using error_response_of_wallet_error
    [of "WalletError \<lparr>WE_Code = ''weird'', WE_Description = ''<script>''\<rparr>"]
  by (simp add: error_code_defs)

end
