(* ===== verification/Session.thy ===== *)
theory Session
  imports Errors
begin

text \<open>
  The per-verification state (\<open>session.go\<close>) and the environment the library runs in: the packages
  it calls that are not part of it (\<open>go-eudi-crypto\<close>, \<open>go-dcql\<close>, \<open>go-eudi-rpcert\<close>, the key and
  certificate types of the standard library), collected in one record of parameters.
\<close>

section \<open>Time and effects\<close>

text \<open>
  A \<open>time.Time\<close> is its instant in nanoseconds since the Unix epoch, a \<open>time.Duration\<close> a number of
  nanoseconds. The clock and the random source are read many times; the world counts the readings:
  \<open>w_ticks\<close> of the clock, \<open>w_rpos\<close> of the bytes read from the injected random source, \<open>w_entropy\<close> of
  the calls into the crypto package that draw their own randomness.
\<close>

type_synonym go_time = int

definition time_unix :: "go_time \<Rightarrow> int" where
  "time_unix t = t div 1000000000"

record world =
  w_ticks :: nat
  w_rpos :: nat
  w_entropy :: nat

definition tick :: "(nat \<Rightarrow> go_time) \<Rightarrow> world \<Rightarrow> go_time \<times> world" where
  "tick clock w = (clock (w_ticks w), w\<lparr>w_ticks := Suc (w_ticks w)\<rparr>)"

lemma tick_simps [simp]:
  "fst (tick c w) = c (w_ticks w)"
  "snd (tick c w) = w\<lparr>w_ticks := Suc (w_ticks w)\<rparr>"
  by (simp_all add: tick_def)

section \<open>Keys and certificates\<close>

text \<open>An EC public key: the name and bit size of its curve, and \<open>ECDH().Bytes()\<close> or its error.\<close>

record ec_public =
  pk_curve :: string
  pk_bits :: nat
  pk_point :: "string + bytes"

record ec_private =
  sk_secret :: bytes
  sk_public :: ec_public

datatype public_key = PubEC ec_public | PubOther string
datatype private_key = PrivEC ec_private | PrivOther string

record cert =
  DNSNames :: "string list"
  CertPublicKey :: public_key
  CertRaw :: bytes

section \<open>Parameters\<close>

record hash_fn =
  h_available :: bool
  h_sum :: "bytes \<Rightarrow> bytes"

record policy =
  AllowedCurve :: "string \<Rightarrow> bool"
  AllowedJWEAlg :: "string \<Rightarrow> string \<Rightarrow> bool"
  AllowedJWSAlg :: "string \<Rightarrow> bool"
  AllowedCOSEAlg :: "int \<Rightarrow> bool"
  HashForAlg :: "string \<Rightarrow> string + hash_fn"

record key_provider =
  kp_name :: string
  kp_public :: "string \<Rightarrow> string + public_key"

record jws_header =
  hdr_typ :: string
  hdr_x5c :: "cert option list"

record credential =
  cq_ID :: string
  cq_Format :: string

text \<open>
  \<open>'q\<close> is \<open>dcql.Query\<close> and \<open>'r\<close> is \<open>rpcert.RegistrationRef\<close>; the source looks at them only
  through the functions below. The functions that draw randomness take the number of the call.
\<close>

record ('q, 'r) deps =
  ECCG :: policy
  GenerateEphemeralKey :: "string \<Rightarrow> nat \<Rightarrow> string + ec_private"
  SignJWS :: "key_provider option \<Rightarrow> string \<Rightarrow> jws_header \<Rightarrow> bytes \<Rightarrow> nat \<Rightarrow> string + bytes"
  DecryptJWE :: "(string \<rightharpoonup> ec_private) \<Rightarrow> string \<Rightarrow> bytes \<Rightarrow> string + (bytes \<times> (string \<rightharpoonup> jvalue))"
  JWKThumbprintBytes :: "ec_public \<Rightarrow> string + bytes"
  MarshalPKCS8 :: "ec_private \<Rightarrow> string + bytes"
  ParsePKCS8 :: "bytes \<Rightarrow> string + private_key"
  Credentials :: "'q \<Rightarrow> credential list"
  QueryValidate :: "'q \<Rightarrow> string option"
  QueryJSON :: "'q \<Rightarrow> string + jvalue"
  FormatSDJWT :: string
  FormatMdoc :: string
  ZeroRef :: 'r
  RefClaims :: "'r \<Rightarrow> string + jvalue"
  ParseIPLiteral :: "string \<Rightarrow> string option"
  TimeNow :: "nat \<Rightarrow> go_time"
  CryptoRand :: "nat \<Rightarrow> char option"

section \<open>The session\<close>

definition SameDevice :: string where "SameDevice = ''same-device''"
definition CrossDevice :: string where "CrossDevice = ''cross-device''"
definition DCAPI :: string where "DCAPI = ''dcapi''"

lemmas flow_defs = SameDevice_def CrossDevice_def DCAPI_def

lemma flow_distinct [simp]:
  "SameDevice \<noteq> CrossDevice" "CrossDevice \<noteq> SameDevice" "SameDevice \<noteq> DCAPI"
  "DCAPI \<noteq> SameDevice" "CrossDevice \<noteq> DCAPI" "DCAPI \<noteq> CrossDevice"
  by (simp_all add: flow_defs)

record ('q, 'r) session =
  S_ID :: string
  S_Flow :: string
  S_ClientID :: string
  S_Nonce :: string
  S_State :: string
  S_ResponseURI :: string
  S_ReturnURI :: string
  S_Query :: 'q
  S_Registration :: 'r
  S_WRPRC :: bytes
  S_TransactionData :: "bytes list"
  S_ExpectedOrigins :: "string list"
  S_EphemeralKeyPKCS8 :: bytes
  S_CreatedAt :: go_time
  S_ExpiresAt :: go_time
  S_RequestObjectServed :: bool
  S_WalletMetadata :: bytes
  S_Consumed :: bool
  S_ResponseCode :: string
  S_ResponseCodeUsed :: bool

text \<open>\<open>(*Session).ephemeralPrivateKey\<close>\<close>

definition ephemeralPrivateKey :: "('q, 'r) deps \<Rightarrow> ('q, 'r) session \<Rightarrow> err + ec_private" where
  "ephemeralPrivateKey D s =
     (case ParsePKCS8 D (S_EphemeralKeyPKCS8 s) of
        Inl e \<Rightarrow> Inl (failw ErrSessionInvalid (Foreign e))
      | Inr (PrivOther t) \<Rightarrow> Inl (failq ErrSessionInvalid [t])
      | Inr (PrivEC k) \<Rightarrow> Inr k)"

lemma ephemeralPrivateKey_err: "ephemeralPrivateKey D s = Inl e \<Longrightarrow>
    lib_err e \<and> sentinels e = [ErrSessionInvalid] \<and> errors_as_wallet e = None"
  by (auto simp: ephemeralPrivateKey_def split: sum.splits private_key.splits)

text \<open>The engine's own expiry check: \<open>e.clock().Before(s.ExpiresAt)\<close> must hold.\<close>

definition live_at :: "go_time \<Rightarrow> ('q, 'r) session \<Rightarrow> bool" where
  "live_at now s = (now < S_ExpiresAt s)"

end
