(* ===== verification/Sample.thy ===== *)
theory Sample
  imports Session
begin

text \<open>
  One concrete environment, on which the witnesses run: the parameters of the model instantiated by
  small computable functions. A query is its list of credential queries, a registration reference a
  string, a private key its eight-byte secret, a JWE the secret of its recipient followed by the
  plaintext, a JWS its type and payload. Nothing of the library's own code is defined here.
\<close>

definition sample_hash :: hash_fn where
  "sample_hash = \<lparr>h_available = True, h_sum = (\<lambda>b. take 2 (rev b))\<rparr>"

definition sample_policy :: policy where
  "sample_policy =
     \<lparr>AllowedCurve = (\<lambda>c. c = ''P-256''),
      AllowedJWEAlg = (\<lambda>a enc. a = ''ECDH-ES'' \<and> (enc = ''A128GCM'' \<or> enc = ''A256GCM'')),
      AllowedJWSAlg = (\<lambda>a. a = ''ES256''),
      AllowedCOSEAlg = (\<lambda>a. a = -7),
      HashForAlg = (\<lambda>a. if a = ''ES256'' then Inr sample_hash else Inl ''unknown algorithm'')\<rparr>"

definition sample_public :: ec_public where
  "sample_public = \<lparr>pk_curve = ''P-256'', pk_bits = 256,
     pk_point = Inr (CHR 0x04 # replicate 32 (CHR 0x11) @ replicate 32 (CHR 0x22))\<rparr>"

definition sample_key :: "bytes \<Rightarrow> ec_private" where
  "sample_key b = \<lparr>sk_secret = b, sk_public = sample_public\<rparr>"

definition sample_decrypt ::
    "(string \<rightharpoonup> ec_private) \<Rightarrow> string \<Rightarrow> bytes \<Rightarrow> string + (bytes \<times> (string \<rightharpoonup> jvalue))" where
  "sample_decrypt keys kid jwe =
     (case keys kid of
        None \<Rightarrow> Inl ''unknown key''
      | Some k \<Rightarrow>
          if take 8 jwe = sk_secret k then Inr (drop 8 jwe, Map.empty) else Inl ''decryption failed'')"

definition sample_deps :: "(credential list, string) deps" where
  "sample_deps =
     \<lparr>ECCG = sample_policy,
      GenerateEphemeralKey = (\<lambda>c n. Inr (sample_key ''key-0001'')),
      SignJWS = (\<lambda>kp kid hdr payload n. Inr (hdr_typ hdr @ ''.'' @ payload)),
      DecryptJWE = sample_decrypt,
      JWKThumbprintBytes = (\<lambda>pk. Inr ''thumb''),
      MarshalPKCS8 = (\<lambda>k. Inr (sk_secret k)),
      ParsePKCS8 = (\<lambda>b. if length b = 8 then Inr (PrivEC (sample_key b)) else Inl ''asn1''),
      Credentials = (\<lambda>q. q),
      QueryValidate = (\<lambda>q. None),
      QueryJSON = (\<lambda>q. Inr (JArr (map (\<lambda>c. JStr (cq_ID c)) q))),
      FormatSDJWT = ''dc+sd-jwt'',
      FormatMdoc = ''mso_mdoc'',
      ZeroRef = [],
      RefClaims = (\<lambda>r. Inr (JObj [(''sub'', JStr r)])),
      ParseIPLiteral = (\<lambda>h. None),
      TimeNow = (\<lambda>n. 0),
      CryptoRand = (\<lambda>n. Some (char_of (int n)))\<rparr>"

definition sample_query :: "credential list" where
  "sample_query = [\<lparr>cq_ID = ''pid'', cq_Format = ''dc+sd-jwt''\<rparr>,
                   \<lparr>cq_ID = ''mdl'', cq_Format = ''mso_mdoc''\<rparr>]"

text \<open>A served and consumed same-device session, with ten seconds to live.\<close>

definition sample_session :: "(credential list, string) session" where
  "sample_session =
     \<lparr>S_ID = ''sid'', S_Flow = ''same-device'', S_ClientID = ''x509_san_dns:v.example'',
      S_Nonce = ''nonce'', S_State = ''st'', S_ResponseURI = ''https://v.example/r'',
      S_ReturnURI = ''https://c.example/cb'', S_Query = sample_query, S_Registration = ''EX-1'',
      S_WRPRC = [], S_TransactionData = [], S_ExpectedOrigins = [],
      S_EphemeralKeyPKCS8 = ''key-0001'', S_CreatedAt = 0, S_ExpiresAt = 10000000000,
      S_RequestObjectServed = True, S_WalletMetadata = [], S_Consumed = True,
      S_ResponseCode = [], S_ResponseCodeUsed = False\<rparr>"

definition sample_world :: world where
  "sample_world = \<lparr>w_ticks = 0, w_rpos = 0, w_entropy = 0\<rparr>"

end
