(* ===== verification/Store.thy ===== *)
theory Store
  imports Sample
begin

text \<open>
  The session store: the contract of \<open>SessionStore\<close> (\<open>session.go\<close>) as a locale, and the in-memory
  reference implementation \<open>MemStore\<close> (\<open>memstore.go\<close>), which keeps JSON snapshots. The encoding of
  a snapshot is a parameter (\<open>codec\<close>); a session is \<open>storable\<close> when it survives the encoding, with
  its consumed marker set or not. Every operation runs under the store's mutex, so concurrent
  callers are sequences of whole operations.
\<close>

section \<open>Snapshots\<close>

record ('q, 'r) codec =
  c_Marshal :: "('q, 'r) session \<Rightarrow> string + bytes"
  c_Unmarshal :: "bytes \<Rightarrow> string + ('q, 'r) session"

definition survives :: "('q, 'r) codec \<Rightarrow> ('q, 'r) session \<Rightarrow> bool" where
  "survives C s = (case c_Marshal C s of Inl e \<Rightarrow> False | Inr raw \<Rightarrow> c_Unmarshal C raw = Inr s)"

definition storable :: "('q, 'r) codec \<Rightarrow> ('q, 'r) session \<Rightarrow> bool" where
  "storable C s = (S_ID s \<noteq> [] \<and> survives C s \<and> survives C (s\<lparr>S_Consumed := True\<rparr>))"

text \<open>
  What a service relies on of the encoding, for sessions of any content: a snapshot decodes, and an id
  and a response code that are tokens are kept, and so are the markers. The parameter \<open>sound\<close> stands for
  the conditions under which the provider promises this.
\<close>

definition alike :: "('q, 'r) session \<Rightarrow> ('q, 'r) session \<Rightarrow> bool" where
  "alike t s \<longleftrightarrow> S_ID t = S_ID s \<and> S_RequestObjectServed t = S_RequestObjectServed s
     \<and> S_Consumed t = S_Consumed s \<and> S_ResponseCode t = S_ResponseCode s
     \<and> S_ResponseCodeUsed t = S_ResponseCodeUsed s"

locale snapshots =
  fixes C :: "('q, 'r) codec"
    and sound :: bool
  assumes keeps: "sound \<Longrightarrow> c_Marshal C s = Inr raw \<Longrightarrow> ascii (S_ID s) \<Longrightarrow> ascii (S_ResponseCode s) \<Longrightarrow>
    \<exists>t. c_Unmarshal C raw = Inr t \<and> alike t s"

section \<open>MemStore\<close>

type_synonym mem = "string \<rightharpoonup> bytes"

definition NewMemStore :: mem where
  "NewMemStore = Map.empty"

text \<open>Each operation returns its result and the new store; \<open>now\<close> is what its clock reads.\<close>

definition mem_Save :: "('q, 'r) codec \<Rightarrow> ('q, 'r) session option \<Rightarrow> mem \<Rightarrow> err option \<times> mem" where
  "mem_Save C so m =
     (case so of
        None \<Rightarrow> (Some (Sentinel ErrSessionInvalid), m)
      | Some s \<Rightarrow>
          if S_ID s = [] then (Some (Sentinel ErrSessionInvalid), m)
          else (case c_Marshal C s of
                  Inl e \<Rightarrow> (Some (failw ErrSessionInvalid (Foreign e)), m)
                | Inr raw \<Rightarrow> (None, m(S_ID s \<mapsto> raw))))"

definition mem_load :: "('q, 'r) codec \<Rightarrow> go_time \<Rightarrow> string \<Rightarrow> mem \<Rightarrow> (err + ('q, 'r) session) \<times> mem" where
  "mem_load C now i m =
     (case m i of
        None \<Rightarrow> (Inl (Sentinel ErrSessionNotFound), m)
      | Some raw \<Rightarrow>
          (case c_Unmarshal C raw of
             Inl e \<Rightarrow> (Inl (failw ErrSessionInvalid (Foreign e)), m)
           | Inr s \<Rightarrow>
               if \<not> now < S_ExpiresAt s then (Inl (Sentinel ErrSessionNotFound), m(i := None))
               else (Inr s, m)))"

definition mem_Load :: "('q, 'r) codec \<Rightarrow> go_time \<Rightarrow> string \<Rightarrow> mem \<Rightarrow> (err + ('q, 'r) session) \<times> mem" where
  "mem_Load C now i m = mem_load C now i m"

definition mem_ConsumeOnce ::
    "('q, 'r) codec \<Rightarrow> go_time \<Rightarrow> string \<Rightarrow> mem \<Rightarrow> (err + ('q, 'r) session) \<times> mem" where
  "mem_ConsumeOnce C now i m =
     (case mem_load C now i m of
        (Inl e, m') \<Rightarrow> (Inl e, m')
      | (Inr s, m') \<Rightarrow>
          if S_Consumed s then (Inl (Sentinel ErrSessionConsumed), m')
          else
            (let s' = s\<lparr>S_Consumed := True\<rparr> in
             case c_Marshal C s' of
               Inl e \<Rightarrow> (Inl (failw ErrSessionInvalid (Foreign e)), m')
             | Inr raw \<Rightarrow> (Inr s', m'(i \<mapsto> raw))))"

section \<open>Sequences of operations\<close>

text \<open>
  The callers of a store, in the order in which they get the mutex; each operation comes with the
  time at which it runs.
\<close>

datatype ('q, 'r) store_op =
    OpSave "('q, 'r) session"
  | OpLoad string
  | OpConsume string

datatype ('q, 'r) outcome = Saved "err option" | Got "err + ('q, 'r) session"

type_synonym ('q, 'r, 'st) save_fn = "('q, 'r) session option \<Rightarrow> 'st \<Rightarrow> err option \<times> 'st"
type_synonym ('q, 'r, 'st) get_fn = "go_time \<Rightarrow> string \<Rightarrow> 'st \<Rightarrow> (err + ('q, 'r) session) \<times> 'st"

fun store_step :: "('q, 'r, 'st) save_fn \<Rightarrow> ('q, 'r, 'st) get_fn \<Rightarrow> ('q, 'r, 'st) get_fn
    \<Rightarrow> go_time \<Rightarrow> ('q, 'r) store_op \<Rightarrow> 'st \<Rightarrow> ('q, 'r) outcome \<times> 'st" where
  "store_step sv ld cs now (OpSave s) st = map_prod Saved id (sv (Some s) st)"
| "store_step sv ld cs now (OpLoad i) st = map_prod Got id (ld now i st)"
| "store_step sv ld cs now (OpConsume i) st = map_prod Got id (cs now i st)"

fun store_run :: "('q, 'r, 'st) save_fn \<Rightarrow> ('q, 'r, 'st) get_fn \<Rightarrow> ('q, 'r, 'st) get_fn
    \<Rightarrow> (go_time \<times> ('q, 'r) store_op) list \<Rightarrow> 'st \<Rightarrow> ('q, 'r) outcome list \<times> 'st" where
  "store_run sv ld cs [] st = ([], st)"
| "store_run sv ld cs ((now, opn) # ops) st =
     (case store_step sv ld cs now opn st of
        (r, st') \<Rightarrow> map_prod ((#) r) id (store_run sv ld cs ops st'))"

text \<open>How many \<open>ConsumeOnce\<close> calls for \<open>i\<close> were handed the session.\<close>

fun wins :: "string \<Rightarrow> (go_time \<times> ('q, 'r) store_op) list \<Rightarrow> ('q, 'r) outcome list \<Rightarrow> nat" where
  "wins i ((now, OpConsume j) # ops) (Got (Inr s) # outs) =
     (if i = j then 1 else 0) + wins i ops outs"
| "wins i (p # ops) (r # outs) = wins i ops outs"
| "wins i ops outs = 0"

text \<open>Every \<open>Save\<close> of session \<open>i\<close> in the sequence saves a consumed copy.\<close>

definition saves_consumed :: "string \<Rightarrow> (go_time \<times> ('q, 'r) store_op) list \<Rightarrow> bool" where
  "saves_consumed i ops = (\<forall>(now, opn) \<in> set ops.
     case opn of OpSave s \<Rightarrow> S_ID s = i \<longrightarrow> S_Consumed s | _ \<Rightarrow> True)"

definition ops_storable :: "(('q, 'r) session \<Rightarrow> bool) \<Rightarrow> (go_time \<times> ('q, 'r) store_op) list \<Rightarrow> bool" where
  "ops_storable P ops = (\<forall>(now, opn) \<in> set ops. case opn of OpSave s \<Rightarrow> P s | _ \<Rightarrow> True)"

text \<open>The outcomes a client of a working store has to expect.\<close>

fun regular :: "('q, 'r) outcome \<Rightarrow> bool" where
  "regular (Saved e) = (e = None)"
| "regular (Got (Inr s)) = True"
| "regular (Got (Inl e)) = (e = Sentinel ErrSessionNotFound \<or> e = Sentinel ErrSessionConsumed)"

section \<open>The contract\<close>

text \<open>
  \<open>view st i\<close> is the session a store holds for \<open>i\<close>, expired or not. \<open>Load\<close> and \<open>ConsumeOnce\<close> may
  evict what has expired, and change nothing else.
\<close>

locale session_store =
  fixes save :: "('q, 'r, 'st) save_fn"
    and load :: "('q, 'r, 'st) get_fn"
    and consume :: "('q, 'r, 'st) get_fn"
    and view :: "'st \<Rightarrow> string \<Rightarrow> ('q, 'r) session option"
    and inv :: "'st \<Rightarrow> bool"
    and ok :: "('q, 'r) session \<Rightarrow> bool"
  assumes save_nil: "save None st = (Some (Sentinel ErrSessionInvalid), st)"
    and save_no_id: "S_ID s = [] \<Longrightarrow> save (Some s) st = (Some (Sentinel ErrSessionInvalid), st)"
    and save_ok: "inv st \<Longrightarrow> ok s \<Longrightarrow>
      \<exists>st'. save (Some s) st = (None, st') \<and> inv st' \<and> view st' = (view st)(S_ID s \<mapsto> s)"
    and load_live: "inv st \<Longrightarrow> view st i = Some s \<Longrightarrow> now < S_ExpiresAt s \<Longrightarrow> load now i st = (Inr s, st)"
    and load_gone: "inv st \<Longrightarrow> (\<forall>s. view st i = Some s \<longrightarrow> \<not> now < S_ExpiresAt s) \<Longrightarrow>
      \<exists>st'. load now i st = (Inl (Sentinel ErrSessionNotFound), st') \<and> inv st'
        \<and> view st' = (view st)(i := None)"
    and consume_live: "inv st \<Longrightarrow> view st i = Some s \<Longrightarrow> now < S_ExpiresAt s \<Longrightarrow> \<not> S_Consumed s \<Longrightarrow>
      \<exists>st'. consume now i st = (Inr (s\<lparr>S_Consumed := True\<rparr>), st') \<and> inv st'
        \<and> view st' = (view st)(i \<mapsto> s\<lparr>S_Consumed := True\<rparr>)"
    and consume_again: "inv st \<Longrightarrow> view st i = Some s \<Longrightarrow> now < S_ExpiresAt s \<Longrightarrow> S_Consumed s \<Longrightarrow>
      consume now i st = (Inl (Sentinel ErrSessionConsumed), st)"
    and consume_gone: "inv st \<Longrightarrow> (\<forall>s. view st i = Some s \<longrightarrow> \<not> now < S_ExpiresAt s) \<Longrightarrow>
      \<exists>st'. consume now i st = (Inl (Sentinel ErrSessionNotFound), st') \<and> inv st'
        \<and> view st' = (view st)(i := None)"
begin

text \<open>What one operation can do to the view, and to the invariant.\<close>

lemma load_cases:
  assumes "inv st"
  obtains (live) s where "view st i = Some s" "now < S_ExpiresAt s" "load now i st = (Inr s, st)"
  | (gone) st' where "load now i st = (Inl (Sentinel ErrSessionNotFound), st')" "inv st'"
      "view st' = (view st)(i := None)" "\<forall>s. view st i = Some s \<longrightarrow> \<not> now < S_ExpiresAt s"
  using load_live [OF assms] load_gone [OF assms] by blast

lemma consume_cases:
  assumes "inv st"
  obtains (first) s st' where "view st i = Some s" "now < S_ExpiresAt s" "\<not> S_Consumed s"
      "consume now i st = (Inr (s\<lparr>S_Consumed := True\<rparr>), st')" "inv st'"
      "view st' = (view st)(i \<mapsto> s\<lparr>S_Consumed := True\<rparr>)"
  | (again) s where "view st i = Some s" "now < S_ExpiresAt s" "S_Consumed s"
      "consume now i st = (Inl (Sentinel ErrSessionConsumed), st)"
  | (gone) st' where "consume now i st = (Inl (Sentinel ErrSessionNotFound), st')" "inv st'"
      "view st' = (view st)(i := None)" "\<forall>s. view st i = Some s \<longrightarrow> \<not> now < S_ExpiresAt s"
proof (cases "\<exists>s. view st i = Some s \<and> now < S_ExpiresAt s")
  case True
  then obtain s where s: "view st i = Some s" "now < S_ExpiresAt s" by blast
  then show ?thesis
    using consume_live [OF assms s] consume_again [OF assms s] first [OF s] again [OF s] by blast
next
  case False
  then show ?thesis using consume_gone [OF assms, of i now] gone by blast
qed

text \<open>What is left to win: an unconsumed session in the store.\<close>

definition fresh :: "'st \<Rightarrow> string \<Rightarrow> nat" where
  "fresh st i = (case view st i of Some s \<Rightarrow> if S_Consumed s then 0 else 1 | None \<Rightarrow> 0)"

lemma wins_le_fresh:
  assumes "inv st" and "ops_storable ok ops" and "saves_consumed i ops"
  shows "wins i ops (fst (store_run save load consume ops st)) \<le> fresh st i"
  using assms
proof (induction ops arbitrary: st)
  case Nil
  show ?case by simp
next
  case (Cons p ops)
  obtain now opn where p: "p = (now, opn)" by (cases p) auto
  have rest: "ops_storable ok ops" "saves_consumed i ops"
    using Cons.prems by (auto simp: ops_storable_def saves_consumed_def)
  note IH = Cons.IH [OF _ rest]
  show ?case
  proof (cases opn)
    case (OpSave s)
    with Cons.prems p have "ok s" and c: "S_ID s = i \<Longrightarrow> S_Consumed s"
      by (auto simp: ops_storable_def saves_consumed_def)
    then obtain st' where st': "save (Some s) st = (None, st')" "inv st'"
        "view st' = (view st)(S_ID s \<mapsto> s)"
      using save_ok [OF Cons.prems(1)] by blast
    then have "fresh st' i \<le> fresh st i" using c by (auto simp: fresh_def)
    with IH [OF st'(2)] show ?thesis
      by (simp add: p OpSave st'(1) split_beta)
  next
    case (OpLoad j)
    from Cons.prems(1) show ?thesis
    proof (cases rule: load_cases [where i = j and now = now])
      case (live s)
      then show ?thesis using IH [OF Cons.prems(1)] by (simp add: p OpLoad split_beta)
    next
      case (gone st')
      then have "fresh st' i \<le> fresh st i" by (auto simp: fresh_def)
      with gone IH [OF gone(2)] show ?thesis by (simp add: p OpLoad split_beta)
    qed
  next
    case (OpConsume j)
    from Cons.prems(1) show ?thesis
    proof (cases rule: consume_cases [where i = j and now = now])
      case (first s st')
      then have "fresh st' i + (if i = j then 1 else 0) \<le> fresh st i" by (auto simp: fresh_def)
      with first IH [OF first(5)] show ?thesis by (simp add: p OpConsume split_beta split: if_splits)
    next
      case (again s)
      then show ?thesis using IH [OF Cons.prems(1)] by (simp add: p OpConsume split_beta)
    next
      case (gone st')
      then have "fresh st' i \<le> fresh st i" by (auto simp: fresh_def)
      with gone IH [OF gone(2)] show ?thesis by (simp add: p OpConsume split_beta)
    qed
  qed
qed

lemma at_most_one_win:
  "inv st \<Longrightarrow> ops_storable ok ops \<Longrightarrow> saves_consumed i ops \<Longrightarrow>
     wins i ops (fst (store_run save load consume ops st)) \<le> 1"
  using wins_le_fresh [of st ops i] by (auto simp: fresh_def split: option.splits if_splits)

text \<open>Every sequence keeps the invariant, and no operation fails but for expiry and consumption.\<close>

lemma step_ok:
  assumes "inv st" and "case opn of OpSave s \<Rightarrow> ok s | _ \<Rightarrow> True"
  shows "inv (snd (store_step save load consume now opn st))
    \<and> regular (fst (store_step save load consume now opn st))"
proof (cases opn)
  case (OpSave s)
  then show ?thesis using save_ok [OF assms(1), of s] assms(2) by auto
next
  case (OpLoad i)
  from assms(1) show ?thesis
    by (cases rule: load_cases [where i = i and now = now]) (simp_all add: OpLoad assms(1))
next
  case (OpConsume i)
  from assms(1) show ?thesis
    by (cases rule: consume_cases [where i = i and now = now]) (simp_all add: OpConsume assms(1))
qed

lemma run_ok:
  assumes "inv st" and "ops_storable ok ops"
  shows "inv (snd (store_run save load consume ops st))
    \<and> list_all regular (fst (store_run save load consume ops st))"
  using assms
proof (induction ops arbitrary: st)
  case Nil
  then show ?case by simp
next
  case (Cons p ops)
  obtain now opn where p: "p = (now, opn)" by (cases p) auto
  have "case opn of OpSave s \<Rightarrow> ok s | _ \<Rightarrow> True" and rest: "ops_storable ok ops"
    using Cons.prems(2) by (auto simp: ops_storable_def p)
  from step_ok [OF Cons.prems(1) this(1), of now] Cons.IH [OF _ rest] show ?case
    by (simp add: p split_beta)
qed

text \<open>Callers that only consume, all before the session expires: the first wins, the others are told.\<close>

lemma consumed_stays:
  assumes "inv st" and "view st i = Some s" and "S_Consumed s" and "\<forall>t \<in> set ts. t < S_ExpiresAt s"
  shows "store_run save load consume (map (\<lambda>t. (t, OpConsume i)) ts) st
    = (replicate (length ts) (Got (Inl (Sentinel ErrSessionConsumed))), st)"
  using assms(4)
  by (induction ts) (simp_all add: consume_again [OF assms(1,2) _ assms(3)])

lemma race_exactly_one:
  assumes "inv st" and "view st i = Some s" and "\<not> S_Consumed s"
    and "\<forall>t \<in> set (t0 # ts). t < S_ExpiresAt s"
  shows "fst (store_run save load consume (map (\<lambda>t. (t, OpConsume i)) (t0 # ts)) st)
    = Got (Inr (s\<lparr>S_Consumed := True\<rparr>))
      # replicate (length ts) (Got (Inl (Sentinel ErrSessionConsumed)))"
proof -
  obtain st' where st': "consume t0 i st = (Inr (s\<lparr>S_Consumed := True\<rparr>), st')" "inv st'"
      "view st' i = Some (s\<lparr>S_Consumed := True\<rparr>)"
    using consume_live [OF assms(1,2) _ assms(3), of t0] assms(4) by auto
  have "\<forall>t \<in> set ts. t < S_ExpiresAt (s\<lparr>S_Consumed := True\<rparr>)" using assms(4) by simp
  from consumed_stays [OF st'(2,3) _ this] st'(1) show ?thesis by simp
qed

lemma save_then_load:
  assumes "inv st" and "ok s" and "now < S_ExpiresAt s"
  shows "fst (load now (S_ID s) (snd (save (Some s) st))) = Inr s"
proof -
  obtain st' where st': "save (Some s) st = (None, st')" "inv st'" "view st' (S_ID s) = Some s"
    using save_ok [OF assms(1,2)] by auto
  then show ?thesis using load_live [OF st'(2,3) assms(3)] by simp
qed

lemma save_keeps_others:
  assumes "inv st" and "ok s" and "i \<noteq> S_ID s"
  shows "fst (load now i (snd (save (Some s) st))) = fst (load now i st)"
proof -
  obtain st' where st': "save (Some s) st = (None, st')" "inv st'" "view st' i = view st i"
    using save_ok [OF assms(1,2)] assms(3) by auto
  show ?thesis
    using load_live [OF st'(2)] load_gone [OF st'(2), of i now] load_live [OF assms(1)]
      load_gone [OF assms(1), of i now] st'(1,3)
    by (cases "view st i") force+
qed

end

section \<open>MemStore keeps the contract\<close>

definition mem_view :: "('q, 'r) codec \<Rightarrow> mem \<Rightarrow> string \<Rightarrow> ('q, 'r) session option" where
  "mem_view C m i =
     (case m i of
        None \<Rightarrow> None
      | Some raw \<Rightarrow> (case c_Unmarshal C raw of Inl e \<Rightarrow> None | Inr s \<Rightarrow> Some s))"

text \<open>Every snapshot decodes to a storable session under its own id.\<close>

definition mem_inv :: "('q, 'r) codec \<Rightarrow> mem \<Rightarrow> bool" where
  "mem_inv C m = (\<forall>i raw. m i = Some raw \<longrightarrow>
     (\<exists>s. c_Unmarshal C raw = Inr s \<and> S_ID s = i \<and> storable C s))"

lemma mem_inv_new: "mem_inv C NewMemStore"
  by (simp add: mem_inv_def NewMemStore_def)

lemma survivesD: "survives C s \<Longrightarrow> \<exists>raw. c_Marshal C s = Inr raw \<and> c_Unmarshal C raw = Inr s"
  by (auto simp: survives_def split: sum.splits)

lemma storable_consume: "storable C s \<Longrightarrow> storable C (s\<lparr>S_Consumed := True\<rparr>)"
  by (simp add: storable_def)

lemma mem_inv_view: "mem_inv C m \<Longrightarrow> mem_view C m i = Some s \<longleftrightarrow>
    (\<exists>raw. m i = Some raw \<and> c_Unmarshal C raw = Inr s)"
  by (auto simp: mem_view_def split: option.splits sum.splits)

lemma mem_invD: "mem_inv C m \<Longrightarrow> m i = Some raw \<Longrightarrow>
    \<exists>s. c_Unmarshal C raw = Inr s \<and> S_ID s = i \<and> storable C s"
  by (simp add: mem_inv_def)

lemma mem_inv_none: "mem_inv C m \<Longrightarrow> mem_view C m i = None \<longleftrightarrow> m i = None"
  by (cases "m i") (auto simp: mem_view_def dest: mem_invD)

lemma mem_view_upd: "c_Unmarshal C raw = Inr s \<Longrightarrow> mem_view C (m(i \<mapsto> raw)) = (mem_view C m)(i \<mapsto> s)"
  by (auto simp: mem_view_def)

lemma mem_view_del: "mem_view C (m(i := None)) = (mem_view C m)(i := None)"
  by (auto simp: mem_view_def)

lemma mem_inv_upd: "mem_inv C m \<Longrightarrow> c_Unmarshal C raw = Inr s \<Longrightarrow> storable C s \<Longrightarrow> S_ID s = i
    \<Longrightarrow> mem_inv C (m(i \<mapsto> raw))"
  by (auto simp: mem_inv_def)

lemma mem_inv_del: "mem_inv C m \<Longrightarrow> mem_inv C (m(i := None))"
  by (auto simp: mem_inv_def)

interpretation mem_store: session_store "mem_Save C" "mem_Load C" "mem_ConsumeOnce C" "mem_view C"
    "mem_inv C" "storable C"
  for C :: "('q, 'r) codec"
proof (unfold_locales, goal_cases)
  case (1 st)
  show ?case by (simp add: mem_Save_def)
next
  case (2 s st)
  then show ?case by (simp add: mem_Save_def)
next
  case (3 st s)
  then obtain raw where "c_Marshal C s = Inr raw" "c_Unmarshal C raw = Inr s"
    using survivesD by (auto simp: storable_def)
  with 3 show ?case
    by (auto simp: mem_Save_def mem_view_upd storable_def intro!: mem_inv_upd)
next
  case (4 st i s now)
  then show ?case by (auto simp: mem_Load_def mem_load_def mem_inv_view)
next
  case (5 st i now)
  then show ?case
    by (cases "mem_view C st i")
      (auto simp: mem_Load_def mem_load_def mem_inv_view mem_inv_none mem_view_del mem_inv_del
        fun_upd_idem)
next
  case (6 st i s now)
  then obtain raw where raw: "st i = Some raw" "c_Unmarshal C raw = Inr s"
    by (auto simp: mem_inv_view)
  with 6 have s: "storable C s" "S_ID s = i" using mem_invD [of C st i raw] by auto
  then obtain raw' where "c_Marshal C (s\<lparr>S_Consumed := True\<rparr>) = Inr raw'"
      "c_Unmarshal C raw' = Inr (s\<lparr>S_Consumed := True\<rparr>)"
    using survivesD by (auto simp: storable_def)
  with 6 raw s show ?case
    by (auto simp: mem_ConsumeOnce_def mem_load_def mem_view_upd intro!: mem_inv_upd
        storable_consume)
next
  case (7 st i s now)
  then show ?case by (auto simp: mem_ConsumeOnce_def mem_load_def mem_inv_view)
next
  case (8 st i now)
  then show ?case
    by (cases "mem_view C st i")
      (auto simp: mem_ConsumeOnce_def mem_load_def mem_inv_view mem_inv_none mem_view_del
        mem_inv_del fun_upd_idem)
qed

section \<open>A sample codec\<close>

text \<open>
  For the witnesses: an encoding of the sample session and its consumed copy, and of nothing else.
\<close>

definition sample_fresh :: "(credential list, string) session" where
  "sample_fresh = sample_session\<lparr>S_Consumed := False\<rparr>"

definition sample_codec :: "(credential list, string) codec" where
  "sample_codec =
     \<lparr>c_Marshal = (\<lambda>s. if s = sample_fresh then Inr ''fresh''
                       else if s = sample_session then Inr ''consumed'' else Inl ''json''),
      c_Unmarshal = (\<lambda>raw. if raw = ''fresh'' then Inr sample_fresh
                       else if raw = ''consumed'' then Inr sample_session else Inl ''json'')\<rparr>"

lemma sample_consumed: "sample_fresh\<lparr>S_Consumed := True\<rparr> = sample_session"
  "\<not> S_Consumed sample_fresh" "S_Consumed sample_session"
  by (simp_all add: sample_fresh_def sample_session_def)

lemma sample_times: "S_ExpiresAt sample_fresh = 10000000000" "S_ExpiresAt sample_session = 10000000000"
  "S_ID sample_fresh = ''sid''" "S_ID sample_session = ''sid''"
  by (simp_all add: sample_fresh_def sample_session_def)

lemma sample_distinct: "sample_session \<noteq> sample_fresh" "sample_fresh \<noteq> sample_session"
  using sample_consumed(2,3) by auto

lemma sample_session_consume: "sample_session\<lparr>S_Consumed := True\<rparr> = sample_session"
  by (simp add: sample_session_def)

lemma sample_storable: "storable sample_codec sample_fresh" "storable sample_codec sample_session"
  by (simp_all add: storable_def survives_def sample_codec_def sample_consumed sample_times
      sample_distinct sample_session_consume)

definition sample_store :: mem where
  "sample_store = NewMemStore(''sid'' \<mapsto> ''fresh'')"

lemma sample_store_inv: "mem_inv sample_codec sample_store"
    "mem_view sample_codec sample_store ''sid'' = Some sample_fresh"
proof -
  have u: "c_Unmarshal sample_codec ''fresh'' = Inr sample_fresh" by (simp add: sample_codec_def)
  show "mem_inv sample_codec sample_store" unfolding sample_store_def
    by (rule mem_inv_upd [OF mem_inv_new u]) (simp_all add: sample_storable sample_times)
  show "mem_view sample_codec sample_store ''sid'' = Some sample_fresh"
    using u by (simp add: sample_store_def mem_view_def)
qed

section \<open>Properties\<close>

text \<open>
  C2: The race for a response. However many callers of \<open>ConsumeOnce\<close> compete for one unexpired,
  unconsumed session, the first to get the mutex is handed the session, with its marker set, and every
  other one is told that it is consumed.
\<close>

theorem consume_once_race:
  assumes "mem_inv C m" and "mem_view C m i = Some s" and "\<not> S_Consumed s"
    and "\<forall>t \<in> set (t0 # ts). t < S_ExpiresAt s"
  shows "fst (store_run (mem_Save C) (mem_Load C) (mem_ConsumeOnce C)
       (map (\<lambda>t. (t, OpConsume i)) (t0 # ts)) m)
     = Got (Inr (s\<lparr>S_Consumed := True\<rparr>))
       # replicate (length ts) (Got (Inl (Sentinel ErrSessionConsumed)))"
  using assms by (rule mem_store.race_exactly_one)

theorem consume_once_race_witness:
  "fst (store_run (mem_Save sample_codec) (mem_Load sample_codec) (mem_ConsumeOnce sample_codec)
       [(5, OpConsume ''sid''), (1, OpConsume ''sid''), (7, OpConsume ''sid'')] sample_store)
   = [Got (Inr sample_session), Got (Inl (Sentinel ErrSessionConsumed)),
      Got (Inl (Sentinel ErrSessionConsumed))]"
  using consume_once_race [OF sample_store_inv sample_consumed(2), of 5 "[1, 7]"]
  by (simp add: sample_times sample_consumed numeral_2_eq_2)

text \<open>
  C22: At most one winner, whatever else happens. In any sequence of saves, loads and consumptions of
  any sessions at any times, one session is handed out by \<open>ConsumeOnce\<close> at most once, provided that
  every copy of it that is saved has the marker set.
\<close>

theorem consume_once_at_most_one:
  assumes "mem_inv C m" and "ops_storable (storable C) ops" and "saves_consumed i ops"
  shows "wins i ops (fst (store_run (mem_Save C) (mem_Load C) (mem_ConsumeOnce C) ops m)) \<le> 1"
  using assms by (rule mem_store.at_most_one_win)

theorem consume_once_at_most_one_witness:
  "wins ''sid'' [(1, OpConsume ''sid''), (2, OpSave sample_session), (3, OpConsume ''sid'')]
     (fst (store_run (mem_Save sample_codec) (mem_Load sample_codec) (mem_ConsumeOnce sample_codec)
       [(1, OpConsume ''sid''), (2, OpSave sample_session), (3, OpConsume ''sid'')] sample_store)) \<le> 1"
  by (rule consume_once_at_most_one [OF sample_store_inv(1)])
    (simp_all add: ops_storable_def saves_consumed_def sample_storable sample_consumed)

text \<open>
  The proviso is needed: the marker is not sticky under \<open>Save\<close>. Saving a copy that was loaded before
  the consumption clears the marker in the store, and the next \<open>ConsumeOnce\<close> hands the session out
  again. (The documentation of \<open>SessionStore\<close> and \<open>MemStore\<close> promises the opposite.)
\<close>

theorem stale_save_revives:
  assumes "mem_inv C m" and "storable C s" and "mem_view C m (S_ID s) = Some s" and "\<not> S_Consumed s"
    and "t1 < S_ExpiresAt s" and "t2 < S_ExpiresAt s" and "t3 < S_ExpiresAt s"
  shows "fst (store_run (mem_Save C) (mem_Load C) (mem_ConsumeOnce C)
       [(t1, OpLoad (S_ID s)), (t1, OpConsume (S_ID s)), (t2, OpSave s), (t3, OpConsume (S_ID s))] m)
     = [Got (Inr s), Got (Inr (s\<lparr>S_Consumed := True\<rparr>)), Saved None,
        Got (Inr (s\<lparr>S_Consumed := True\<rparr>))]"
proof -
  have load: "mem_Load C t1 (S_ID s) m = (Inr s, m)"
    using assms by (intro mem_store.load_live)
  obtain m1 where m1: "mem_ConsumeOnce C t1 (S_ID s) m = (Inr (s\<lparr>S_Consumed := True\<rparr>), m1)"
      "mem_inv C m1"
    using mem_store.consume_live [OF assms(1,3,5,4)] by blast
  obtain m2 where m2: "mem_Save C (Some s) m1 = (None, m2)" "mem_inv C m2"
      "mem_view C m2 (S_ID s) = Some s"
    using mem_store.save_ok [OF m1(2) assms(2)] by auto
  obtain m3 where "mem_ConsumeOnce C t3 (S_ID s) m2 = (Inr (s\<lparr>S_Consumed := True\<rparr>), m3)"
    using mem_store.consume_live [OF m2(2,3) assms(7,4)] by blast
  with load m1(1) m2(1) show ?thesis by simp
qed

theorem stale_save_revives_witness:
  "fst (store_run (mem_Save sample_codec) (mem_Load sample_codec) (mem_ConsumeOnce sample_codec)
       [(1, OpLoad ''sid''), (1, OpConsume ''sid''), (2, OpSave sample_fresh), (3, OpConsume ''sid'')]
       sample_store)
   = [Got (Inr sample_fresh), Got (Inr sample_session), Saved None, Got (Inr sample_session)]"
  using stale_save_revives [OF sample_store_inv(1) sample_storable(1), of 1 2 3]
  by (simp add: sample_times sample_consumed sample_store_inv(2))



text \<open>
  A store that starts empty and is used only through its operations never gets into a bad state: every
  snapshot in it decodes to a session under its own id, every save succeeds, and loads and
  consumptions fail only because the session is absent, expired or consumed.
\<close>

theorem mem_store_regular:
  assumes "ops_storable (storable C) ops"
  shows "mem_inv C (snd (store_run (mem_Save C) (mem_Load C) (mem_ConsumeOnce C) ops NewMemStore))
    \<and> list_all regular
        (fst (store_run (mem_Save C) (mem_Load C) (mem_ConsumeOnce C) ops NewMemStore))"
  using mem_inv_new assms by (rule mem_store.run_ok)

theorem mem_store_regular_witness:
  "list_all regular
     (fst (store_run (mem_Save sample_codec) (mem_Load sample_codec) (mem_ConsumeOnce sample_codec)
       [(1, OpSave sample_fresh), (2, OpConsume ''sid''), (3, OpConsume ''sid'')] NewMemStore))"
  using mem_store_regular [of sample_codec
      "[(1, OpSave sample_fresh), (2, OpConsume ''sid''), (3, OpConsume ''sid'')]"]
  by (simp add: ops_storable_def sample_storable)

end
