(* ===== verification/Session_Codec.thy ===== *)
theory Session_Codec
  imports Store Go_Base64 Go_Json_Round Go_Time
begin

text \<open>
  The JSON form of a session: the struct tags of \<open>Session\<close> in \<open>session.go\<close>, which is what
  \<open>MemStore\<close> keeps and what a persistent store is promised. Byte slices are base64, empty members
  with \<open>omitempty\<close> are left out, times are RFC 3339. The JSON forms of the query and of the
  registration reference are those of their packages, and the offset of a time from UTC is that of its
  location. An empty slice stands for a nil one too (in Go an empty key is written as \<open>""\<close>, a nil one as
  \<open>null\<close>, and both are read back as empty). What \<open>Unmarshal\<close> does with an array under a name that
  occurs twice is simplified: the later one replaces the earlier one.
\<close>

section \<open>The packages whose types a session holds\<close>

record ('q, 'r) json_lib =
  QueryTo :: "'q \<Rightarrow> string + jvalue"
  QueryFrom :: "jvalue \<Rightarrow> string + 'q"
  RefTo :: "'r \<Rightarrow> string + jvalue"
  RefFrom :: "jvalue \<Rightarrow> string + 'r"
  ZeroQuery :: 'q
  ZeroRegistration :: 'r
  Offset :: "go_time \<Rightarrow> int"

section \<open>Marshal\<close>

definition opt_string :: "string \<Rightarrow> string \<Rightarrow> (bytes \<times> jvalue) list" where
  "opt_string k x = (if x = [] then [] else [(k, JStr x)])"

definition opt_bytes :: "string \<Rightarrow> bytes \<Rightarrow> (bytes \<times> jvalue) list" where
  "opt_bytes k x = (if x = [] then [] else [(k, JStr (std_encode x))])"

definition opt_list :: "string \<Rightarrow> ('a \<Rightarrow> string) \<Rightarrow> 'a list \<Rightarrow> (bytes \<times> jvalue) list" where
  "opt_list k f xs = (if xs = [] then [] else [(k, JArr (map (\<lambda>x. JStr (f x)) xs))])"

definition opt_bool :: "string \<Rightarrow> bool \<Rightarrow> (bytes \<times> jvalue) list" where
  "opt_bool k b = (if b then [(k, JBool b)] else [])"

text \<open>The members in the order of the struct's fields.\<close>

definition session_json ::
    "jvalue \<Rightarrow> jvalue \<Rightarrow> string \<Rightarrow> string \<Rightarrow> ('q, 'r) session \<Rightarrow> (bytes \<times> jvalue) list" where
  "session_json q r created expires s =
     [(''id'', JStr (S_ID s)), (''flow'', JStr (S_Flow s)), (''client_id'', JStr (S_ClientID s)),
      (''nonce'', JStr (S_Nonce s)), (''state'', JStr (S_State s)),
      (''response_uri'', JStr (S_ResponseURI s))]
     @ opt_string ''return_uri'' (S_ReturnURI s)
     @ [(''query'', q), (''registration'', r)]
     @ opt_bytes ''wrprc'' (S_WRPRC s)
     @ opt_list ''transaction_data'' std_encode (S_TransactionData s)
     @ opt_list ''expected_origins'' id (S_ExpectedOrigins s)
     @ [(''ephemeral_key_pkcs8'', JStr (std_encode (S_EphemeralKeyPKCS8 s))),
        (''created_at'', JStr created), (''expires_at'', JStr expires),
        (''request_object_served'', JBool (S_RequestObjectServed s))]
     @ opt_bytes ''wallet_metadata'' (S_WalletMetadata s)
     @ [(''consumed'', JBool (S_Consumed s))]
     @ opt_string ''response_code'' (S_ResponseCode s)
     @ opt_bool ''response_code_used'' (S_ResponseCodeUsed s)"

definition session_marshal :: "('q, 'r) json_lib \<Rightarrow> ('q, 'r) session \<Rightarrow> string + bytes" where
  "session_marshal L s =
     bindR (QueryTo L (S_Query s)) (\<lambda>q.
     bindR (RefTo L (S_Registration s)) (\<lambda>r.
     bindR (time_text (Offset L (S_CreatedAt s)) (S_CreatedAt s)) (\<lambda>created.
     bindR (time_text (Offset L (S_ExpiresAt s)) (S_ExpiresAt s)) (\<lambda>expires.
       Inr (json_print (JObj (session_json q r created expires s)))))))"

section \<open>Unmarshal\<close>

text \<open>Into a \<open>[]byte\<close>: base64, or an array of numbers.\<close>

definition into_byte :: "jvalue \<Rightarrow> char option" where
  "into_byte v =
     (case v of
        JNum n \<Rightarrow> map_option (\<lambda>i. val_byte (nat i)) (parse_uint n 0 255)
      | JNull \<Rightarrow> Some (val_byte 0)
      | _ \<Rightarrow> None)"

definition into_bytes :: "jvalue \<Rightarrow> bytes option" where
  "into_bytes v =
     (case v of
        JNull \<Rightarrow> Some []
      | JStr x \<Rightarrow> std_decode x
      | JArr vs \<Rightarrow> those (map into_byte vs)
      | _ \<Rightarrow> None)"

definition into_byte_slices :: "jvalue \<Rightarrow> bytes list option" where
  "into_byte_slices v =
     (case v of
        JNull \<Rightarrow> Some []
      | JArr vs \<Rightarrow> those (map into_bytes vs)
      | _ \<Rightarrow> None)"

definition into_bool :: "jvalue \<Rightarrow> bool \<Rightarrow> bool option" where
  "into_bool v cur = (case v of JBool b \<Rightarrow> Some b | JNull \<Rightarrow> Some cur | _ \<Rightarrow> None)"

definition into_time :: "jvalue \<Rightarrow> go_time \<Rightarrow> go_time option" where
  "into_time v cur = (case v of JStr x \<Rightarrow> parse_time x | JNull \<Rightarrow> Some cur | _ \<Rightarrow> None)"

definition into_value :: "(jvalue \<Rightarrow> string + 'a) \<Rightarrow> jvalue \<Rightarrow> 'a option" where
  "into_value f v = (case f v of Inl er \<Rightarrow> None | Inr x \<Rightarrow> Some x)"

type_synonym ('q, 'r) member_decoder = "jvalue \<Rightarrow> ('q, 'r) session \<Rightarrow> ('q, 'r) session option"

definition session_fields :: "('q, 'r) json_lib \<Rightarrow> (string \<times> ('q, 'r) member_decoder) list" where
  "session_fields L =
     [(''id'', \<lambda>v s. map_option (\<lambda>x. s\<lparr>S_ID := x\<rparr>) (into_string v (S_ID s))),
      (''flow'', \<lambda>v s. map_option (\<lambda>x. s\<lparr>S_Flow := x\<rparr>) (into_string v (S_Flow s))),
      (''client_id'', \<lambda>v s. map_option (\<lambda>x. s\<lparr>S_ClientID := x\<rparr>) (into_string v (S_ClientID s))),
      (''nonce'', \<lambda>v s. map_option (\<lambda>x. s\<lparr>S_Nonce := x\<rparr>) (into_string v (S_Nonce s))),
      (''state'', \<lambda>v s. map_option (\<lambda>x. s\<lparr>S_State := x\<rparr>) (into_string v (S_State s))),
      (''response_uri'', \<lambda>v s. map_option (\<lambda>x. s\<lparr>S_ResponseURI := x\<rparr>) (into_string v (S_ResponseURI s))),
      (''return_uri'', \<lambda>v s. map_option (\<lambda>x. s\<lparr>S_ReturnURI := x\<rparr>) (into_string v (S_ReturnURI s))),
      (''query'', \<lambda>v s. map_option (\<lambda>x. s\<lparr>S_Query := x\<rparr>) (into_value (QueryFrom L) v)),
      (''registration'', \<lambda>v s. map_option (\<lambda>x. s\<lparr>S_Registration := x\<rparr>) (into_value (RefFrom L) v)),
      (''wrprc'', \<lambda>v s. map_option (\<lambda>x. s\<lparr>S_WRPRC := x\<rparr>) (into_bytes v)),
      (''transaction_data'', \<lambda>v s. map_option (\<lambda>x. s\<lparr>S_TransactionData := x\<rparr>) (into_byte_slices v)),
      (''expected_origins'', \<lambda>v s. map_option (\<lambda>x. s\<lparr>S_ExpectedOrigins := x\<rparr>) (into_strings v)),
      (''ephemeral_key_pkcs8'', \<lambda>v s. map_option (\<lambda>x. s\<lparr>S_EphemeralKeyPKCS8 := x\<rparr>) (into_bytes v)),
      (''created_at'', \<lambda>v s. map_option (\<lambda>x. s\<lparr>S_CreatedAt := x\<rparr>) (into_time v (S_CreatedAt s))),
      (''expires_at'', \<lambda>v s. map_option (\<lambda>x. s\<lparr>S_ExpiresAt := x\<rparr>) (into_time v (S_ExpiresAt s))),
      (''request_object_served'',
        \<lambda>v s. map_option (\<lambda>x. s\<lparr>S_RequestObjectServed := x\<rparr>) (into_bool v (S_RequestObjectServed s))),
      (''wallet_metadata'', \<lambda>v s. map_option (\<lambda>x. s\<lparr>S_WalletMetadata := x\<rparr>) (into_bytes v)),
      (''consumed'', \<lambda>v s. map_option (\<lambda>x. s\<lparr>S_Consumed := x\<rparr>) (into_bool v (S_Consumed s))),
      (''response_code'', \<lambda>v s. map_option (\<lambda>x. s\<lparr>S_ResponseCode := x\<rparr>) (into_string v (S_ResponseCode s))),
      (''response_code_used'',
        \<lambda>v s. map_option (\<lambda>x. s\<lparr>S_ResponseCodeUsed := x\<rparr>) (into_bool v (S_ResponseCodeUsed s)))]"

text \<open>Members in the order of the document; a name that fits no field is skipped.\<close>

fun into_session :: "('q, 'r) json_lib \<Rightarrow> (bytes \<times> jvalue) list \<Rightarrow> ('q, 'r) session
    \<Rightarrow> ('q, 'r) session option" where
  "into_session L [] s = Some s"
| "into_session L ((k, v) # ms) s =
     (case find (\<lambda>(n, f). field_match k n) (session_fields L) of
        None \<Rightarrow> into_session L ms s
      | Some (n, f) \<Rightarrow> Option.bind (f v s) (into_session L ms))"

text \<open>The zero \<open>Session\<close>; a zero \<open>time.Time\<close> is the first of January of year 1.\<close>

definition zero_session :: "('q, 'r) json_lib \<Rightarrow> ('q, 'r) session" where
  "zero_session L =
     \<lparr>S_ID = [], S_Flow = [], S_ClientID = [], S_Nonce = [], S_State = [], S_ResponseURI = [],
      S_ReturnURI = [], S_Query = ZeroQuery L, S_Registration = ZeroRegistration L, S_WRPRC = [],
      S_TransactionData = [], S_ExpectedOrigins = [], S_EphemeralKeyPKCS8 = [],
      S_CreatedAt = -62135596800000000000, S_ExpiresAt = -62135596800000000000,
      S_RequestObjectServed = False, S_WalletMetadata = [], S_Consumed = False,
      S_ResponseCode = [], S_ResponseCodeUsed = False\<rparr>"

definition session_unmarshal :: "('q, 'r) json_lib \<Rightarrow> bytes \<Rightarrow> string + ('q, 'r) session" where
  "session_unmarshal L raw =
     (case json_document raw of
        None \<Rightarrow> Inl ''syntax error''
      | Some JNull \<Rightarrow> Inr (zero_session L)
      | Some (JObj ms) \<Rightarrow>
          (case into_session L ms (zero_session L) of
             None \<Rightarrow> Inl ''cannot unmarshal into Session''
           | Some s \<Rightarrow> Inr s)
      | Some _ \<Rightarrow> Inl ''cannot unmarshal into Session'')"

definition json_codec :: "('q, 'r) json_lib \<Rightarrow> ('q, 'r) codec" where
  "json_codec L = \<lparr>c_Marshal = session_marshal L, c_Unmarshal = session_unmarshal L\<rparr>"

section \<open>Reading back what was written\<close>

text \<open>The strings of a session as they come back: the bytes of slices are kept, invalid UTF-8 in strings is not.\<close>

definition valid_session :: "('q, 'r) session \<Rightarrow> ('q, 'r) session" where
  "valid_session s =
     s\<lparr>S_ID := valid_utf8 (S_ID s), S_Flow := valid_utf8 (S_Flow s), S_ClientID := valid_utf8 (S_ClientID s),
       S_Nonce := valid_utf8 (S_Nonce s), S_State := valid_utf8 (S_State s),
       S_ResponseURI := valid_utf8 (S_ResponseURI s), S_ReturnURI := valid_utf8 (S_ReturnURI s),
       S_ExpectedOrigins := map valid_utf8 (S_ExpectedOrigins s),
       S_ResponseCode := valid_utf8 (S_ResponseCode s)\<rparr>"

text \<open>
  What is relied on of the packages: the JSON form of this query and of this registration is a value
  that \<open>Marshal\<close> accepts, not nested to the limit, and is read back as what it was made of.
\<close>

definition comes_back :: "('a \<Rightarrow> string + jvalue) \<Rightarrow> (jvalue \<Rightarrow> string + 'a) \<Rightarrow> 'a \<Rightarrow> bool" where
  "comes_back to from x =
     (case to x of
        Inl er \<Rightarrow> True
      | Inr v \<Rightarrow> json_ok v \<and> json_depth v < 10000 \<and> from (json_valid v) = Inr x)"

definition parts_come_back :: "('q, 'r) json_lib \<Rightarrow> ('q, 'r) session \<Rightarrow> bool" where
  "parts_come_back L s =
     (comes_back (QueryTo L) (QueryFrom L) (S_Query s) \<and> comes_back (RefTo L) (RefFrom L) (S_Registration s))"

text \<open>No two fields have names that differ in case only, so each name finds its own field.\<close>

lemma field_names: "map fst (session_fields L) =
    [''id'', ''flow'', ''client_id'', ''nonce'', ''state'', ''response_uri'', ''return_uri'', ''query'',
     ''registration'', ''wrprc'', ''transaction_data'', ''expected_origins'', ''ephemeral_key_pkcs8'',
     ''created_at'', ''expires_at'', ''request_object_served'', ''wallet_metadata'', ''consumed'',
     ''response_code'', ''response_code_used'']"
  by (simp add: session_fields_def)

lemma field_names_distinct: "distinct (map (\<lambda>f. fold_name (fst f)) (session_fields L))"
proof -
  have "distinct (map fold_name (map fst (session_fields L)))"
    unfolding field_names by code_simp
  then show ?thesis by (simp add: comp_def)
qed

lemma find_field: "(n, f) \<in> set (session_fields L) \<Longrightarrow>
    find (\<lambda>(m, g). field_match n m) (session_fields L) = Some (n, f)"
  using find_unique [OF field_names_distinct, of "(n, f)" L "fold_name n"]
  by (simp add: field_match_def split_def eq_commute [of "fold_name n"])

lemma into_session_field: "(n, f) \<in> set (session_fields L) \<Longrightarrow>
    into_session L ((n, v) # ms) s = Option.bind (f v s) (into_session L ms)"
  by (simp add: find_field)

lemma into_session_append: "into_session L (xs @ ys) s = Option.bind (into_session L xs s) (into_session L ys)"
proof (induction xs arbitrary: s)
  case (Cons p xs)
  obtain k v where "p = (k, v)" by (cases p)
  with Cons show ?case by (auto split: option.splits bind_splits)
qed simp

text \<open>What \<open>Unmarshal\<close> gets of a list of members.\<close>

abbreviation reread :: "(bytes \<times> jvalue) list \<Rightarrow> (bytes \<times> jvalue) list" where
  "reread \<equiv> map (\<lambda>(k, v). (valid_utf8 k, json_valid v))"

lemma valid_utf8_Nil_iff [simp]: "valid_utf8 s = [] \<longleftrightarrow> s = []"
  by (cases s) (simp_all add: Let_def replacement_def)

lemma valid_std_encode [simp]: "valid_utf8 (std_encode x) = std_encode x"
  using is_utf8_ascii [OF std_encode_ascii] by (rule valid_utf8_id)

lemma into_bytes_std [simp]: "into_bytes (JStr (std_encode x)) = Some x"
  by (simp add: into_bytes_def std_round_trip)

lemma into_byte_slices_std [simp]:
  "into_byte_slices (JArr (map (\<lambda>x. JStr (std_encode x)) xs)) = Some xs"
  using those_map_Some [of xs "\<lambda>x. into_bytes (JStr (std_encode x))" id]
  by (simp add: into_byte_slices_def comp_def)

lemma into_strings_JStr: "into_strings (JArr (map (\<lambda>x. JStr (f x)) xs)) = Some (map f xs)"
  using those_map_Some [of xs "\<lambda>x. into_string (JStr (f x)) []" f]
  by (simp add: into_strings_def into_string_def comp_def)

lemma digit_ascii: "is_digit c \<Longrightarrow> byte_val c < 128"
  by (auto simp: is_digit_def)

lemma pad_ascii: "ascii (pad n i)"
  using pad_digits(1) [of n i] by (rule list.pred_mono_strong) (rule digit_ascii)

lemma fraction_ascii: "ascii (fraction_text ns)"
  using pad_ascii [of 9 ns] unfolding fraction_text_def Let_def
  by (auto simp only: list_all_iff set_rev list.set split: if_splits dest!: set_dropWhileD) simp_all

lemma zone_ascii: "ascii (zone_text off)"
  by (simp add: zone_text_def pad_ascii)

lemma date_ascii: "ascii (date_text d)" "ascii (clock_text c)"
  by (simp_all add: date_text_def clock_text_def pad_ascii split_beta Let_def)

lemma time_text_ascii: "time_text off t = Inr x \<Longrightarrow> ascii x"
  by (auto simp: time_text_def date_ascii fraction_ascii zone_ascii Let_def split: if_splits)

lemma valid_time_text: "time_text off t = Inr x \<Longrightarrow> valid_utf8 x = x"
  by (simp add: time_text_ascii is_utf8_ascii valid_utf8_id)

lemma into_time_text: "time_text off t = Inr x \<Longrightarrow> into_time (JStr x) cur = Some t"
  by (simp add: into_time_def time_round_trip)

text \<open>How the members that are always there, and the optional ones, are decoded, each by its own field.\<close>

definition field_of :: "('q, 'r) json_lib \<Rightarrow> string \<Rightarrow> ('q, 'r) member_decoder" where
  "field_of L n = the (map_of (session_fields L) n)"

lemma field_of: "n \<in> set (map fst (session_fields L)) \<Longrightarrow> (n, field_of L n) \<in> set (session_fields L)"
proof -
  assume "n \<in> set (map fst (session_fields L))"
  then obtain f where "(n, f) \<in> set (session_fields L)" by auto
  then obtain g where "map_of (session_fields L) n = Some g" using weak_map_of_SomeI by metis
  then show ?thesis by (simp add: field_of_def map_of_SomeD)
qed

lemma field_name_utf8: "n \<in> set (map fst (session_fields L)) \<Longrightarrow> valid_utf8 n = n"
proof -
  have "list_all ascii (map fst (session_fields L))" unfolding field_names by code_simp
  then show "n \<in> set (map fst (session_fields L)) \<Longrightarrow> ?thesis"
    by (intro valid_utf8_id is_utf8_ascii) (auto simp only: list_all_iff)
qed

lemma into_one:
  assumes "n \<in> set (map fst (session_fields L))"
  shows "into_session L (reread ((n, v) # ms)) s
    = Option.bind (field_of L n (json_valid v) s) (into_session L (reread ms))"
  using into_session_field [OF field_of [OF assms]] field_name_utf8 [OF assms]
  by (simp del: into_session.simps)

lemma into_opt_string:
  assumes "n \<in> set (map fst (session_fields L))" and "x = [] \<Longrightarrow> field_of L n (JStr []) s = Some s"
  shows "into_session L (reread (opt_string n x @ ms)) s
    = Option.bind (field_of L n (JStr (valid_utf8 x)) s) (into_session L (reread ms))"
  using into_one [OF assms(1), of "JStr x" ms s] assms(2)
  by (simp add: opt_string_def del: into_session.simps)

lemma into_opt_bytes:
  assumes "n \<in> set (map fst (session_fields L))" and "x = [] \<Longrightarrow> field_of L n (JStr []) s = Some s"
  shows "into_session L (reread (opt_bytes n x @ ms)) s
    = Option.bind (field_of L n (JStr (std_encode x)) s) (into_session L (reread ms))"
  using into_one [OF assms(1), of "JStr (std_encode x)" ms s] assms(2)
  by (simp add: opt_bytes_def del: into_session.simps)

lemma into_opt_list:
  assumes "n \<in> set (map fst (session_fields L))" and "xs = [] \<Longrightarrow> field_of L n (JArr []) s = Some s"
  shows "into_session L (reread (opt_list n f xs @ ms)) s
    = Option.bind (field_of L n (JArr (map (\<lambda>x. JStr (valid_utf8 (f x))) xs)) s) (into_session L (reread ms))"
  using into_one [OF assms(1), of "JArr (map (\<lambda>x. JStr (f x)) xs)" ms s] assms(2)
  by (simp add: opt_list_def comp_def del: into_session.simps)

lemma into_opt_bool:
  assumes "n \<in> set (map fst (session_fields L))" and "\<not> b \<Longrightarrow> field_of L n (JBool False) s = Some s"
  shows "into_session L (reread (opt_bool n b)) s = field_of L n (JBool b) s"
  using into_one [OF assms(1), of "JBool b" "[]" s] assms(2)
  by (cases b) (simp_all add: opt_bool_def bind_eq_Some_conv del: into_session.simps(2)
      split: option.split bind_split)

lemma into_session_json:
  assumes "QueryFrom L (json_valid q) = Inr q'" and "RefFrom L (json_valid r) = Inr r'"
    and "time_text o1 (S_CreatedAt s) = Inr created" and "time_text o2 (S_ExpiresAt s) = Inr expires"
  shows "into_session L (reread (session_json q r created expires s)) (zero_session L)
    = Some ((valid_session s)\<lparr>S_Query := q', S_Registration := r'\<rparr>)"
  unfolding session_json_def append.simps
  by (simp add: into_one into_opt_string into_opt_bytes into_opt_list into_opt_bool
      session_fields_def field_of_def zero_session_def into_string_def into_value_def into_bool_def
      into_strings_JStr into_time_text [OF assms(3)] into_time_text [OF assms(4)]
      valid_time_text [OF assms(3)] valid_time_text [OF assms(4)] assms(1,2) valid_session_def
      into_strings_JStr [where xs = "[]", simplified] into_byte_slices_std [of "[]", simplified]
      into_bytes_std [of "[]", simplified]
      del: list.map map_append into_session.simps)

text \<open>The document of a session is one that the scanner accepts.\<close>

lemma foldr_max_le: "list_all (\<lambda>x. f x \<le> n) xs \<Longrightarrow> foldr max (map f xs) 0 \<le> n" for n :: nat
  by (induction xs) simp_all

lemma session_json_all:
  assumes "P q" and "P r" and "\<And>x. P (JStr x)" and "\<And>b. P (JBool b)" and "\<And>xs. P (JArr (map JStr xs))"
  shows "list_all (\<lambda>(k, v). P v) (session_json q r created expires s)"
proof -
  have "P (JArr (map (\<lambda>x. JStr (f x)) xs))" for f :: "bytes \<Rightarrow> string" and xs
    using assms(5) [of "map f xs"] by (simp add: comp_def)
  with assms show ?thesis
    by (simp add: session_json_def opt_string_def opt_bytes_def opt_list_def opt_bool_def)
qed

lemma session_json_document:
  assumes "json_ok q" and "json_ok r" and "json_depth q < 10000" and "json_depth r < 10000"
  shows "json_document (json_print (JObj (session_json q r created expires s)))
    = Some (JObj (reread (session_json q r created expires s)))"
proof -
  let ?ms = "session_json q r created expires s"
  have "json_depth (JArr (map JStr xs)) \<le> 9999" for xs
    using foldr_max_le [of "json_depth \<circ> JStr" 0 xs] by (simp add: list_all_iff)
  then have "list_all (\<lambda>(k, v). json_depth v \<le> 9999) ?ms"
    using assms(3,4) by (intro session_json_all) simp_all
  then have "json_depth (JObj ?ms) \<le> 10000"
    using foldr_max_le [of "\<lambda>(k, v). json_depth v" 9999 ?ms] by (simp add: split_def)
  moreover have "list_all (\<lambda>(k, v). json_ok v) ?ms"
    using assms(1,2) by (intro session_json_all) (simp_all add: list_all_iff)
  ultimately show ?thesis
    by (simp add: json_document_print max_nesting_def del: json_print.simps)
qed

text \<open>
  The weaker demand, that the JSON form of a query and of a registration can be read back at all, holds
  of whatever package marshals what it unmarshals.
\<close>

definition reads :: "('a \<Rightarrow> string + jvalue) \<Rightarrow> (jvalue \<Rightarrow> string + 'b) \<Rightarrow> bool" where
  "reads to from \<longleftrightarrow> (\<forall>x v. to x = Inr v \<longrightarrow>
     json_ok v \<and> json_depth v < 10000 \<and> (\<exists>y. from (json_valid v) = Inr y))"

definition json_readable :: "('q, 'r) json_lib \<Rightarrow> bool" where
  "json_readable L \<longleftrightarrow> reads (QueryTo L) (QueryFrom L) \<and> reads (RefTo L) (RefFrom L)"

lemma session_marshal_Inr:
  assumes "session_marshal L s = Inr raw"
  obtains q r created expires where "QueryTo L (S_Query s) = Inr q" "RefTo L (S_Registration s) = Inr r"
    "time_text (Offset L (S_CreatedAt s)) (S_CreatedAt s) = Inr created"
    "time_text (Offset L (S_ExpiresAt s)) (S_ExpiresAt s) = Inr expires"
    "raw = json_print (JObj (session_json q r created expires s))"
  using assms by (auto simp: session_marshal_def bindR_Inr_iff)

lemma session_readable:
  assumes "session_marshal L s = Inr raw" and "json_readable L"
  shows "\<exists>q r. session_unmarshal L raw = Inr ((valid_session s)\<lparr>S_Query := q, S_Registration := r\<rparr>)"
  using assms(1)
proof (rule session_marshal_Inr)
  fix q r created expires
  assume *: "QueryTo L (S_Query s) = Inr q" "RefTo L (S_Registration s) = Inr r"
    "time_text (Offset L (S_CreatedAt s)) (S_CreatedAt s) = Inr created"
    "time_text (Offset L (S_ExpiresAt s)) (S_ExpiresAt s) = Inr expires"
    "raw = json_print (JObj (session_json q r created expires s))"
  obtain q' where "json_ok q" "json_depth q < 10000" "QueryFrom L (json_valid q) = Inr q'"
    using assms(2) *(1) unfolding json_readable_def reads_def by blast
  moreover obtain r' where "json_ok r" "json_depth r < 10000" "RefFrom L (json_valid r) = Inr r'"
    using assms(2) *(2) unfolding json_readable_def reads_def by blast
  ultimately show ?thesis
    using * into_session_json [of L q q' r r', OF _ _ *(3,4)]
    by (auto simp: session_unmarshal_def session_json_document simp del: json_print.simps)
qed

lemma session_marshal_unmarshal:
  assumes "session_marshal L s = Inr raw" and "parts_come_back L s"
  shows "session_unmarshal L raw = Inr (valid_session s)"
  using assms(1)
proof (rule session_marshal_Inr)
  fix q r created expires
  assume *: "QueryTo L (S_Query s) = Inr q" "RefTo L (S_Registration s) = Inr r"
    "time_text (Offset L (S_CreatedAt s)) (S_CreatedAt s) = Inr created"
    "time_text (Offset L (S_ExpiresAt s)) (S_ExpiresAt s) = Inr expires"
    "raw = json_print (JObj (session_json q r created expires s))"
  then have "json_ok q" "json_depth q < 10000" "QueryFrom L (json_valid q) = Inr (S_Query s)"
      "json_ok r" "json_depth r < 10000" "RefFrom L (json_valid r) = Inr (S_Registration s)"
    using assms(2) by (auto simp: parts_come_back_def comes_back_def)
  moreover have "(valid_session s)\<lparr>S_Query := S_Query s, S_Registration := S_Registration s\<rparr> = valid_session s"
    by (simp add: valid_session_def)
  ultimately show ?thesis
    using * into_session_json [of L q "S_Query s" r "S_Registration s", OF _ _ *(3,4)]
    by (auto simp: session_unmarshal_def session_json_document simp del: json_print.simps)
qed

text \<open>Nothing in the JSON form of a session depends on the marker, so neither does whether there is one.\<close>

lemma session_marshal_consumed:
  "session_marshal L s = Inr raw \<Longrightarrow> \<exists>raw'. session_marshal L (s\<lparr>S_Consumed := True\<rparr>) = Inr raw'"
  by (auto simp: session_marshal_def bindR_Inr_iff)

definition utf8_session :: "('q, 'r) session \<Rightarrow> bool" where
  "utf8_session s \<longleftrightarrow> is_utf8 (S_ID s) \<and> is_utf8 (S_Flow s) \<and> is_utf8 (S_ClientID s) \<and> is_utf8 (S_Nonce s)
     \<and> is_utf8 (S_State s) \<and> is_utf8 (S_ResponseURI s) \<and> is_utf8 (S_ReturnURI s)
     \<and> list_all is_utf8 (S_ExpectedOrigins s) \<and> is_utf8 (S_ResponseCode s)"

lemma valid_session_id: "utf8_session s \<Longrightarrow> valid_session s = s"
  by (simp add: utf8_session_def valid_session_def is_utf8_def list_all_iff map_idI)

text \<open>So a session of valid strings can be kept in the store as it is.\<close>

lemma json_storable:
  assumes "session_marshal L s = Inr raw" and "parts_come_back L s" and "utf8_session s" and "S_ID s \<noteq> []"
  shows "storable (json_codec L) s"
proof -
  obtain raw' where m: "session_marshal L (s\<lparr>S_Consumed := True\<rparr>) = Inr raw'"
    using session_marshal_consumed [OF assms(1)] by blast
  moreover have "parts_come_back L (s\<lparr>S_Consumed := True\<rparr>)" "utf8_session (s\<lparr>S_Consumed := True\<rparr>)"
    using assms(2,3) by (simp_all add: parts_come_back_def utf8_session_def)
  ultimately show ?thesis
    using assms session_marshal_unmarshal [OF assms(1,2)] session_marshal_unmarshal [OF m]
    by (simp add: storable_def survives_def json_codec_def valid_session_id)
qed

text \<open>Any session whose id and response code are tokens comes back with them and with its markers.\<close>

interpretation json: snapshots "json_codec L" "json_readable L"
proof
  fix s raw
  assume *: "json_readable L" "c_Marshal (json_codec L) s = Inr raw" "ascii (S_ID s)" "ascii (S_ResponseCode s)"
  then obtain q r where "session_unmarshal L raw = Inr ((valid_session s)\<lparr>S_Query := q, S_Registration := r\<rparr>)"
    using session_readable [of L s raw] by (auto simp: json_codec_def)
  then show "\<exists>t. c_Unmarshal (json_codec L) raw = Inr t \<and> alike t s"
    using *(3,4) by (auto simp: json_codec_def alike_def valid_session_def is_utf8_ascii valid_utf8_id)
qed

section \<open>A sample\<close>

definition sample_query_from :: "jvalue \<Rightarrow> string + credential list" where
  "sample_query_from v =
     (case v of
        JArr vs \<Rightarrow>
          mapR (\<lambda>x. case x of JObj [(_, JStr i), (_, JStr f)] \<Rightarrow> Inr \<lparr>cq_ID = i, cq_Format = f\<rparr>
                         | _ \<Rightarrow> Inl ''query'') vs
      | _ \<Rightarrow> Inl ''query'')"

definition sample_json :: "(credential list, string) json_lib" where
  "sample_json =
     \<lparr>QueryTo = (\<lambda>q. Inr (JArr (map (\<lambda>c. JObj [(''id'', JStr (cq_ID c)), (''format'', JStr (cq_Format c))]) q))),
      QueryFrom = sample_query_from,
      RefTo = (\<lambda>r. Inr (JStr r)),
      RefFrom = (\<lambda>v. case v of JStr x \<Rightarrow> Inr x | _ \<Rightarrow> Inl ''registration''),
      ZeroQuery = [], ZeroRegistration = [], Offset = (\<lambda>_. 60)\<rparr>"

lemma sample_json_readable: "json_readable sample_json"
proof -
  have "\<exists>y. sample_query_from (json_valid (JArr (map (\<lambda>c. JObj [(''id'', JStr (cq_ID c)), (''format'', JStr (cq_Format c))]) q)))
      = Inr y" for q :: "credential list"
    by (induction q) (auto simp: sample_query_from_def)
  moreover have "json_depth (JArr (map (\<lambda>c. JObj [(''id'', JStr (cq_ID c)), (''format'', JStr (cq_Format c))]) q)) < 10000"
    for q :: "credential list"
    using foldr_max_le [of "\<lambda>c. json_depth (JObj [(''id'', JStr (cq_ID c)), (''format'', JStr (cq_Format c))])" 1 q]
    by (simp add: comp_def list_all_iff)
  ultimately show ?thesis
    by (auto simp: json_readable_def reads_def sample_json_def list_all_iff)
qed

lemma sample_session_parts: "parts_come_back sample_json sample_session"
  by (simp add: parts_come_back_def comes_back_def sample_json_def sample_session_def sample_query_def
      sample_query_from_def)

text \<open>A sample with a byte in a string that is not valid UTF-8.\<close>

definition sample_latin1 :: "(credential list, string) session" where
  "sample_latin1 = sample_session\<lparr>S_ReturnURI := ''https://h/'' @ [CHR 0xE9]\<rparr>"

lemma sample_marshal:
  obtains raw raw' where "session_marshal sample_json sample_session = Inr raw"
    "session_marshal sample_json sample_latin1 = Inr raw'"
proof -
  obtain c x where "time_text 60 (S_CreatedAt sample_session) = Inr c"
      "time_text 60 (S_ExpiresAt sample_session) = Inr x"
    by (simp add: time_text_def sample_session_def days_before_def)
  then show ?thesis
    using that by (simp add: session_marshal_def sample_json_def sample_latin1_def)
qed

section \<open>Properties\<close>

text \<open>
  C15: A session survives its JSON form. What \<open>Unmarshal\<close> makes of the snapshot that \<open>Marshal\<close> wrote is
  the same session, field by field, byte slices, times (to the nanosecond, whatever their location)
  and omitted members included; only bytes that are not valid UTF-8 in a string member come back as the
  replacement character, and a session whose strings are valid comes back unchanged.
\<close>

theorem session_json_round_trip:
  assumes "session_marshal L s = Inr raw" and "parts_come_back L s"
  shows "session_unmarshal L raw = Inr (valid_session s) \<and> (utf8_session s \<longrightarrow> valid_session s = s)"
  using session_marshal_unmarshal [OF assms] valid_session_id by blast

theorem session_json_round_trip_witness:
  "\<exists>raw raw'. session_marshal sample_json sample_session = Inr raw
     \<and> session_unmarshal sample_json raw = Inr sample_session
     \<and> session_marshal sample_json sample_latin1 = Inr raw'
     \<and> session_unmarshal sample_json raw'
         = Inr (sample_session\<lparr>S_ReturnURI := ''https://h/'' @ replacement\<rparr>)"
proof -
  obtain raw raw' where r: "session_marshal sample_json sample_session = Inr raw"
      "session_marshal sample_json sample_latin1 = Inr raw'"
    by (rule sample_marshal)
  have p: "parts_come_back sample_json sample_latin1"
    using sample_session_parts by (simp add: parts_come_back_def sample_latin1_def)
  have u: "utf8_session sample_session" "valid_session sample_latin1
      = sample_session\<lparr>S_ReturnURI := ''https://h/'' @ replacement\<rparr>"
    by (code_simp)+
  show ?thesis
    using r session_json_round_trip [OF r(1) sample_session_parts] session_json_round_trip [OF r(2) p] u
    by metis
qed

text \<open>
  The store keeps what it is given. With the JSON form of sessions, a session that \<open>Save\<close> accepts is
  loaded back by its id, with its strings made valid UTF-8 and otherwise unchanged, until it expires,
  and is not found from then on; and \<open>Save\<close> refuses a session exactly if it has no id or cannot be
  marshalled.
\<close>

theorem json_store_round_trip:
  assumes "parts_come_back L s"
  shows "case mem_Save (json_codec L) (Some s) m of
      (Some er, m') \<Rightarrow> m' = m \<and> (S_ID s = [] \<or> (\<exists>t. session_marshal L s = Inl t))
    | (None, m') \<Rightarrow> S_ID s \<noteq> [] \<and> (\<exists>raw. session_marshal L s = Inr raw)
        \<and> fst (mem_Load (json_codec L) now (S_ID s) m')
          = (if now < S_ExpiresAt s then Inr (valid_session s) else Inl (Sentinel ErrSessionNotFound))"
proof (cases "session_marshal L s")
  case (Inl er)
  then show ?thesis by (simp add: mem_Save_def json_codec_def)
next
  case (Inr raw)
  then show ?thesis
    using session_marshal_unmarshal [OF Inr assms]
    by (simp add: mem_Save_def mem_Load_def mem_load_def json_codec_def valid_session_def)
qed

theorem json_store_round_trip_witness:
  "fst (mem_Load (json_codec sample_json) 5 ''sid''
     (snd (mem_Save (json_codec sample_json) (Some sample_session) NewMemStore))) = Inr sample_session"
proof -
  obtain raw where r: "session_marshal sample_json sample_session = Inr raw" by (rule sample_marshal)
  have u: "utf8_session sample_session" by code_simp
  show ?thesis
    using json_store_round_trip [OF sample_session_parts, where m = NewMemStore and now = 5] r valid_session_id [OF u]
    by (auto simp: sample_times split: prod.splits option.splits)
qed

end
