(* ===== verification/Store_Suite.thy ===== *)
theory Store_Suite
  imports Session_Codec
begin

text \<open>
  The contract suite that the package \<open>storetest\<close> exports for implementations of \<open>SessionStore\<close>, as a
  function of the store under test: \<open>Run\<close> gives the failures it reports. Every store that keeps the
  contract of \<^theory_text>\<open>Store\<close> passes, \<open>MemStore\<close> with the JSON form of sessions among them. The clock is
  read once for every new session and every store operation; \<open>clk n\<close> is the reading number \<open>n\<close> of a
  subtest. The registration reference comes from \<open>rpcert.NewRegistrationRef\<close>, a parameter.
\<close>

section \<open>The suite\<close>

record ('q, 'r, 'st) store_under_test =
  t_Save :: "('q, 'r, 'st) save_fn"
  t_Load :: "('q, 'r, 'st) get_fn"
  t_ConsumeOnce :: "('q, 'r, 'st) get_fn"
  t_factory :: 'st

record ('q, 'r) suite_env =
  t_NewRegistrationRef :: "string \<Rightarrow> string \<Rightarrow> string \<Rightarrow> string \<Rightarrow> string + 'r"
  t_ZeroQuery :: 'q
  t_Marshal :: "('q, 'r) session \<Rightarrow> string + bytes"
  t_clock :: "nat \<Rightarrow> go_time"

text \<open>\<open>time.Now().UTC().Truncate(time.Second)\<close>\<close>

definition trunc_second :: "go_time \<Rightarrow> go_time" where
  "trunc_second t = t - t mod 1000000000"

abbreviation hour :: int where "hour \<equiv> 3600000000000"
abbreviation minute :: int where "minute \<equiv> 60000000000"

definition newSession :: "('q, 'r) suite_env \<Rightarrow> nat \<Rightarrow> string \<Rightarrow> int \<Rightarrow> string + ('q, 'r) session" where
  "newSession E n i ttl =
     bindR (t_NewRegistrationRef E ''Example Verifier'' ''verifier.example.com''
              ''https://registry.example.com/api'' (''intended-use-'' @ i)) (\<lambda>reg.
       Inr \<lparr>S_ID = i, S_Flow = CrossDevice, S_ClientID = ''x509_san_dns:verifier.example.com'',
            S_Nonce = ''nonce-'' @ i, S_State = ''state-'' @ i,
            S_ResponseURI = ''https://verifier.example.com/response/'' @ i, S_ReturnURI = [],
            S_Query = t_ZeroQuery E, S_Registration = reg, S_WRPRC = [], S_TransactionData = [],
            S_ExpectedOrigins = [], S_EphemeralKeyPKCS8 = [],
            S_CreatedAt = trunc_second (t_clock E n), S_ExpiresAt = trunc_second (t_clock E n) + ttl,
            S_RequestObjectServed = False, S_WalletMetadata = [], S_Consumed = False,
            S_ResponseCode = [], S_ResponseCodeUsed = False\<rparr>)"

text \<open>
  The steps a subtest is made of; each gives the failures from there on. \<open>t.Fatalf\<close> ends the subtest,
  \<open>t.Errorf\<close> does not.
\<close>

definition with_session ::
    "('q, 'r) suite_env \<Rightarrow> nat \<Rightarrow> string \<Rightarrow> int \<Rightarrow> (('q, 'r) session \<Rightarrow> string list) \<Rightarrow> string list" where
  "with_session E n i ttl k = (case newSession E n i ttl of Inl er \<Rightarrow> [''NewRegistrationRef''] | Inr s \<Rightarrow> k s)"

definition must_save ::
    "('q, 'r, 'st) store_under_test \<Rightarrow> ('q, 'r) session \<Rightarrow> 'st \<Rightarrow> ('st \<Rightarrow> string list) \<Rightarrow> string list" where
  "must_save T s st k = (case t_Save T (Some s) st of (Some er, st') \<Rightarrow> [''Save''] | (None, st') \<Rightarrow> k st')"

definition must_get ::
    "('q, 'r, 'st) get_fn \<Rightarrow> go_time \<Rightarrow> string \<Rightarrow> 'st \<Rightarrow> (('q, 'r) session \<Rightarrow> 'st \<Rightarrow> string list) \<Rightarrow> string list" where
  "must_get f now i st k = (case f now i st of (Inl er, st') \<Rightarrow> [''unexpected error''] | (Inr s, st') \<Rightarrow> k s st')"

definition must_fail ::
    "('q, 'r, 'st) get_fn \<Rightarrow> sentinel \<Rightarrow> go_time \<Rightarrow> string \<Rightarrow> 'st \<Rightarrow> ('st \<Rightarrow> string list) \<Rightarrow> string list" where
  "must_fail f want now i st k =
     (case f now i st of
        (Inr s, st') \<Rightarrow> [''error expected'']
      | (Inl er, st') \<Rightarrow> if errors_is er want then k st' else [''wrong error''])"

definition must_refuse ::
    "('q, 'r, 'st) store_under_test \<Rightarrow> ('q, 'r) session option \<Rightarrow> 'st \<Rightarrow> ('st \<Rightarrow> string list) \<Rightarrow> string list" where
  "must_refuse T so st k =
     (case t_Save T so st of
        (None, st') \<Rightarrow> [''error expected'']
      | (Some er, st') \<Rightarrow> if errors_is er ErrSessionInvalid then k st' else [''wrong error''])"

definition SaveLoadRoundtrip :: "('q, 'r, 'st) store_under_test \<Rightarrow> ('q, 'r) suite_env \<Rightarrow> string list" where
  "SaveLoadRoundtrip T E =
     with_session E 0 ''s1'' hour (\<lambda>want.
     must_save T want (t_factory T) (\<lambda>st.
     must_get (t_Load T) (t_clock E 1) ''s1'' st (\<lambda>got st'.
       case (t_Marshal E got, t_Marshal E want) of
         (Inr a, Inr b) \<Rightarrow> if a \<noteq> b then [''roundtrip mismatch''] else []
       | _ \<Rightarrow> [''Marshal''])))"

text \<open>Sessions are values here, so \<open>tampered\<close> reaches no store; what is left is that the second load agrees.\<close>

definition LoadReturnsACopy :: "('q, 'r, 'st) store_under_test \<Rightarrow> ('q, 'r) suite_env \<Rightarrow> string list" where
  "LoadReturnsACopy T E =
     with_session E 0 ''s1'' hour (\<lambda>s.
     must_save T s (t_factory T) (\<lambda>st.
     must_get (t_Load T) (t_clock E 1) ''s1'' st (\<lambda>loaded st'.
       let tampered = loaded\<lparr>S_Nonce := ''TAMPERED''\<rparr> in
       must_get (t_Load T) (t_clock E 2) ''s1'' st' (\<lambda>again st''.
         if S_Nonce again \<noteq> ''nonce-s1'' then [''mutating a loaded session leaked into the store''] else []))))"

definition LoadUnknownIsNotFound :: "('q, 'r, 'st) store_under_test \<Rightarrow> ('q, 'r) suite_env \<Rightarrow> string list" where
  "LoadUnknownIsNotFound T E =
     must_fail (t_Load T) ErrSessionNotFound (t_clock E 0) ''ghost'' (t_factory T) (\<lambda>st. [])"

text \<open>\<open>&oid4vp.Session{}\<close> is the zero session, whose times are the zero time.\<close>

definition empty_session :: "('q, 'r) suite_env \<Rightarrow> 'r \<Rightarrow> ('q, 'r) session" where
  "empty_session E zero =
     \<lparr>S_ID = [], S_Flow = [], S_ClientID = [], S_Nonce = [], S_State = [], S_ResponseURI = [],
      S_ReturnURI = [], S_Query = t_ZeroQuery E, S_Registration = zero, S_WRPRC = [],
      S_TransactionData = [], S_ExpectedOrigins = [], S_EphemeralKeyPKCS8 = [],
      S_CreatedAt = -62135596800000000000, S_ExpiresAt = -62135596800000000000,
      S_RequestObjectServed = False, S_WalletMetadata = [], S_Consumed = False,
      S_ResponseCode = [], S_ResponseCodeUsed = False\<rparr>"

definition SaveRequiresID ::
    "('q, 'r, 'st) store_under_test \<Rightarrow> ('q, 'r) suite_env \<Rightarrow> 'r \<Rightarrow> string list" where
  "SaveRequiresID T E zero =
     must_refuse T (Some (empty_session E zero)) (t_factory T) (\<lambda>st. must_refuse T None st (\<lambda>st'. []))"

definition ExpiredSessionIsNotFound ::
    "('q, 'r, 'st) store_under_test \<Rightarrow> ('q, 'r) suite_env \<Rightarrow> string list" where
  "ExpiredSessionIsNotFound T E =
     with_session E 0 ''old'' (- minute) (\<lambda>s.
     must_save T s (t_factory T) (\<lambda>st.
     must_fail (t_Load T) ErrSessionNotFound (t_clock E 1) ''old'' st (\<lambda>st1.
     with_session E 2 ''old2'' (- minute) (\<lambda>s2.
     must_save T s2 st1 (\<lambda>st2.
     must_fail (t_ConsumeOnce T) ErrSessionNotFound (t_clock E 3) ''old2'' st2 (\<lambda>st3. []))))))"

definition ConsumeOnceConsumes :: "('q, 'r, 'st) store_under_test \<Rightarrow> ('q, 'r) suite_env \<Rightarrow> string list" where
  "ConsumeOnceConsumes T E =
     with_session E 0 ''c1'' hour (\<lambda>s.
     must_save T s (t_factory T) (\<lambda>st.
     must_get (t_ConsumeOnce T) (t_clock E 1) ''c1'' st (\<lambda>got st1.
       (if \<not> S_Consumed got then [''ConsumeOnce must return the session with Consumed=true''] else [])
       @ must_fail (t_ConsumeOnce T) ErrSessionConsumed (t_clock E 2) ''c1'' st1 (\<lambda>st2.
         must_get (t_Load T) (t_clock E 3) ''c1'' st2 (\<lambda>loaded st3.
           if \<not> S_Consumed loaded then [''Load after consume must show Consumed=true''] else [])))))"

definition ConsumeOnceUnknownIsNotFound ::
    "('q, 'r, 'st) store_under_test \<Rightarrow> ('q, 'r) suite_env \<Rightarrow> string list" where
  "ConsumeOnceUnknownIsNotFound T E =
     must_fail (t_ConsumeOnce T) ErrSessionNotFound (t_clock E 0) ''ghost'' (t_factory T) (\<lambda>st. [])"

definition ConsumedMarkerSurvivesSave ::
    "('q, 'r, 'st) store_under_test \<Rightarrow> ('q, 'r) suite_env \<Rightarrow> string list" where
  "ConsumedMarkerSurvivesSave T E =
     with_session E 0 ''c2'' hour (\<lambda>s0.
     must_save T s0 (t_factory T) (\<lambda>st.
     must_get (t_ConsumeOnce T) (t_clock E 1) ''c2'' st (\<lambda>s st1.
     must_save T (s\<lparr>S_ResponseCode := ''minted-after-consume''\<rparr>) st1 (\<lambda>st2.
     must_fail (t_ConsumeOnce T) ErrSessionConsumed (t_clock E 2) ''c2'' st2 (\<lambda>st3.
     must_get (t_Load T) (t_clock E 3) ''c2'' st3 (\<lambda>loaded st4.
       if S_ResponseCode loaded \<noteq> ''minted-after-consume''
       then [''Save after consume must persist new fields''] else []))))))"

text \<open>
  The goroutines get the store's mutex in some order; each counts as a win, a conflict or a failure.
\<close>

definition goroutines :: nat where "goroutines = 64"

definition won :: "('q, 'r) outcome \<Rightarrow> bool" where
  "won out = (case out of Got (Inr s) \<Rightarrow> True | _ \<Rightarrow> False)"

definition conflict :: "('q, 'r) outcome \<Rightarrow> bool" where
  "conflict out = (case out of Got (Inl er) \<Rightarrow> errors_is er ErrSessionConsumed | _ \<Rightarrow> False)"

definition ConcurrentConsumeExactlyOnce ::
    "('q, 'r, 'st) store_under_test \<Rightarrow> ('q, 'r) suite_env \<Rightarrow> string list" where
  "ConcurrentConsumeExactlyOnce T E =
     with_session E 0 ''race'' hour (\<lambda>s.
     must_save T s (t_factory T) (\<lambda>st.
       let outs = fst (store_run (t_Save T) (t_Load T) (t_ConsumeOnce T)
                    (map (\<lambda>n. (t_clock E (Suc n), OpConsume ''race'')) [0..<goroutines]) st)
       in map (\<lambda>out. ''unexpected error'') (filter (\<lambda>out. \<not> won out \<and> \<not> conflict out) outs)
          @ (if length (filter won outs) \<noteq> 1 \<or> length (filter conflict outs) \<noteq> goroutines - 1
             then [''want exactly one win''] else [])))"

definition Run :: "('q, 'r, 'st) store_under_test \<Rightarrow> ('q, 'r) suite_env \<Rightarrow> 'r \<Rightarrow> string list" where
  "Run T E zero =
     SaveLoadRoundtrip T E @ LoadReturnsACopy T E @ LoadUnknownIsNotFound T E @ SaveRequiresID T E zero
     @ ExpiredSessionIsNotFound T E @ ConsumeOnceConsumes T E @ ConsumeOnceUnknownIsNotFound T E
     @ ConsumedMarkerSurvivesSave T E @ ConcurrentConsumeExactlyOnce T E"


section \<open>Every store that keeps the contract passes\<close>

definition suite_ids :: "string list" where
  "suite_ids = [''s1'', ''old'', ''old2'', ''c1'', ''c2'', ''race'']"

text \<open>
  What the suite relies on of its surroundings. A subtest runs for less than 59 seconds, so that no
  session with an hour to live expires in it; there is a registration reference for its sessions, and its
  sessions and their copies fit the store.
\<close>

definition suite_clock :: "('q, 'r) suite_env \<Rightarrow> go_time \<Rightarrow> bool" where
  "suite_clock E t \<longleftrightarrow> (\<forall>n. t \<le> t_clock E n \<and> t_clock E n < t + 59000000000)"

definition suite_sessions :: "(('q, 'r) session \<Rightarrow> bool) \<Rightarrow> ('q, 'r) suite_env \<Rightarrow> bool" where
  "suite_sessions P E \<longleftrightarrow> (\<forall>i \<in> set suite_ids. \<forall>n. \<forall>ttl \<in> {hour, - minute}.
     \<exists>s. newSession E n i ttl = Inr s \<and> P s
       \<and> P (s\<lparr>S_Consumed := True, S_ResponseCode := ''minted-after-consume''\<rparr>)
       \<and> (\<exists>raw. t_Marshal E s = Inr raw))"

lemma newSession_Inr:
  assumes "newSession E n i ttl = Inr s"
  shows "S_ID s = i" and "S_Nonce s = ''nonce-'' @ i" and "\<not> S_Consumed s"
    and "S_ExpiresAt s = trunc_second (t_clock E n) + ttl"
  using assms by (auto simp: newSession_def bindR_Inr_iff)

lemma with_session_newSession:
  assumes "suite_sessions P E" and "i \<in> set suite_ids" and "ttl \<in> {hour, - minute}"
  obtains s where "\<And>k. with_session E n i ttl k = k s" and "P s"
    and "P (s\<lparr>S_Consumed := True, S_ResponseCode := ''minted-after-consume''\<rparr>)"
    and "\<exists>raw. t_Marshal E s = Inr raw" and "S_ID s = i" and "S_Nonce s = ''nonce-'' @ i"
    and "\<not> S_Consumed s" and "S_ExpiresAt s = trunc_second (t_clock E n) + ttl"
proof -
  obtain s where s: "newSession E n i ttl = Inr s" "P s"
      "P (s\<lparr>S_Consumed := True, S_ResponseCode := ''minted-after-consume''\<rparr>)"
      "\<exists>raw. t_Marshal E s = Inr raw"
    using assms unfolding suite_sessions_def by blast
  have "with_session E n i ttl k = k s" for k by (simp add: with_session_def s(1))
  from that [OF this s(2-4) newSession_Inr [OF s(1)]] show ?thesis .
qed

lemma trunc_second_bounds: "trunc_second t \<le> t" "t < trunc_second t + 1000000000"
  using pos_mod_bound [of 1000000000 t] by (simp_all add: trunc_second_def)

lemma live:
  assumes "suite_clock E t"
  shows "t_clock E m < trunc_second (t_clock E n) + hour"
  using assms [unfolded suite_clock_def, rule_format, of m] assms [unfolded suite_clock_def, rule_format, of n]
    trunc_second_bounds [of "t_clock E n"] by linarith

lemma over:
  assumes "suite_clock E t"
  shows "\<not> t_clock E m < trunc_second (t_clock E n) + - minute"
  using assms [unfolded suite_clock_def, rule_format, of m] assms [unfolded suite_clock_def, rule_format, of n]
    trunc_second_bounds [of "t_clock E n"] by linarith

lemma suite_ids_in: "''s1'' \<in> set suite_ids" "''old'' \<in> set suite_ids" "''old2'' \<in> set suite_ids"
    "''c1'' \<in> set suite_ids" "''c2'' \<in> set suite_ids" "''race'' \<in> set suite_ids"
  by (simp_all add: suite_ids_def)

context session_store
begin

definition tested :: "'st \<Rightarrow> ('q, 'r, 'st) store_under_test" where
  "tested st0 = \<lparr>t_Save = save, t_Load = load, t_ConsumeOnce = consume, t_factory = st0\<rparr>"

lemma tested_sel [simp]: "t_Save (tested st0) = save" "t_Load (tested st0) = load"
    "t_ConsumeOnce (tested st0) = consume" "t_factory (tested st0) = st0"
  by (simp_all add: tested_def)

lemma must_saveI:
  assumes "inv st" and "ok s" and "\<And>st'. inv st' \<Longrightarrow> view st' = (view st)(S_ID s \<mapsto> s) \<Longrightarrow> k st' = []"
  shows "must_save (tested st0) s st k = []"
  using save_ok [OF assms(1,2)] assms(3) by (auto simp: must_save_def)

lemma must_loadI:
  assumes "inv st" and "view st i = Some s" and "now < S_ExpiresAt s" and "k s st = []"
  shows "must_get load now i st k = []"
  using load_live [OF assms(1-3)] assms(4) by (simp add: must_get_def)

lemma must_consumeI:
  assumes "inv st" and "view st i = Some s" and "now < S_ExpiresAt s" and "\<not> S_Consumed s"
    and "\<And>st'. inv st' \<Longrightarrow> view st' = (view st)(i \<mapsto> s\<lparr>S_Consumed := True\<rparr>) \<Longrightarrow> k (s\<lparr>S_Consumed := True\<rparr>) st' = []"
  shows "must_get consume now i st k = []"
  using consume_live [OF assms(1-4)] assms(5) by (auto simp: must_get_def)

lemma must_fail_loadI:
  assumes "inv st" and "\<forall>s. view st i = Some s \<longrightarrow> \<not> now < S_ExpiresAt s" and "\<And>st'. inv st' \<Longrightarrow> k st' = []"
  shows "must_fail load ErrSessionNotFound now i st k = []"
  using load_gone [OF assms(1,2)] assms(3) by (auto simp: must_fail_def)

lemma must_fail_consumeI:
  assumes "inv st" and "\<forall>s. view st i = Some s \<longrightarrow> \<not> now < S_ExpiresAt s" and "\<And>st'. inv st' \<Longrightarrow> k st' = []"
  shows "must_fail consume ErrSessionNotFound now i st k = []"
  using consume_gone [OF assms(1,2)] assms(3) by (auto simp: must_fail_def)

lemma must_fail_againI:
  assumes "inv st" and "view st i = Some s" and "now < S_ExpiresAt s" and "S_Consumed s" and "k st = []"
  shows "must_fail consume ErrSessionConsumed now i st k = []"
  using consume_again [OF assms(1-4)] assms(5) by (simp add: must_fail_def)

lemma must_refuseI:
  assumes "so = None \<or> so = Some s \<and> S_ID s = []" and "k st = []"
  shows "must_refuse (tested st0) so st k = []"
  using assms save_nil save_no_id by (auto simp: must_refuse_def)

text \<open>One lemma for each subtest.\<close>

lemma passes_SaveLoadRoundtrip:
  assumes "inv st0" and "suite_sessions ok E" and "suite_clock E t"
  shows "SaveLoadRoundtrip (tested st0) E = []"
proof (rule with_session_newSession [OF assms(2) suite_ids_in(1), of hour 0])
  fix s
  assume w: "\<And>k. with_session E 0 ''s1'' hour k = k s" and s: "ok s" "\<exists>raw. t_Marshal E s = Inr raw"
    "S_ID s = ''s1''" "S_ExpiresAt s = trunc_second (t_clock E 0) + hour"
  show ?thesis unfolding SaveLoadRoundtrip_def w tested_sel
  proof (rule must_saveI)
    fix st
    assume "inv st" "view st = (view st0)(S_ID s \<mapsto> s)"
    then show "must_get load (t_clock E 1) ''s1'' st (\<lambda>got st'.
        case (t_Marshal E got, t_Marshal E s) of
          (Inr a, Inr b) \<Rightarrow> if a \<noteq> b then [''roundtrip mismatch''] else [] | _ \<Rightarrow> [''Marshal'']) = []"
      using s live [OF assms(3)] by (intro must_loadI [where s = s]) auto
  qed (use assms(1) s in auto)
qed simp

lemma passes_LoadReturnsACopy:
  assumes "inv st0" and "suite_sessions ok E" and "suite_clock E t"
  shows "LoadReturnsACopy (tested st0) E = []"
proof (rule with_session_newSession [OF assms(2) suite_ids_in(1), of hour 0])
  fix s
  assume w: "\<And>k. with_session E 0 ''s1'' hour k = k s" and s: "ok s" "S_ID s = ''s1''"
    "S_Nonce s = ''nonce-'' @ ''s1''" "S_ExpiresAt s = trunc_second (t_clock E 0) + hour"
  have l: "\<And>m. t_clock E m < S_ExpiresAt s" using live [OF assms(3)] s(4) by simp
  show ?thesis unfolding LoadReturnsACopy_def w tested_sel Let_def
    by (rule must_saveI [OF assms(1) s(1)], rule must_loadI [OF _ _ l], assumption, simp add: s(2),
        rule must_loadI [OF _ _ l], assumption, simp add: s(2), simp add: s(3))
qed simp

lemma passes_LoadUnknownIsNotFound:
  assumes "inv st0" and "view st0 = Map.empty"
  shows "LoadUnknownIsNotFound (tested st0) E = []"
  unfolding LoadUnknownIsNotFound_def tested_sel
  by (rule must_fail_loadI [OF assms(1)]) (simp_all add: assms(2))

lemma passes_SaveRequiresID: "SaveRequiresID (tested st0) E zero = []"
  unfolding SaveRequiresID_def
  by (rule must_refuseI [where s = "empty_session E zero"], simp add: empty_session_def, rule must_refuseI) simp_all

lemma passes_ExpiredSessionIsNotFound:
  assumes "inv st0" and "suite_sessions ok E" and "suite_clock E t"
  shows "ExpiredSessionIsNotFound (tested st0) E = []"
proof (rule with_session_newSession [OF assms(2) suite_ids_in(2), of "- minute" 0])
  fix s
  assume w: "\<And>k. with_session E 0 ''old'' (- minute) k = k s" and s: "ok s" "S_ID s = ''old''"
    "S_ExpiresAt s = trunc_second (t_clock E 0) + - minute"
  show ?thesis
  proof (rule with_session_newSession [OF assms(2) suite_ids_in(3), of "- minute" 2])
    fix s2
    assume w2: "\<And>k. with_session E 2 ''old2'' (- minute) k = k s2" and s2: "ok s2" "S_ID s2 = ''old2''"
      "S_ExpiresAt s2 = trunc_second (t_clock E 2) + - minute"
    show ?thesis unfolding ExpiredSessionIsNotFound_def w w2 tested_sel
      by (rule must_saveI [OF assms(1) s(1)], rule must_fail_loadI, assumption,
          use over [OF assms(3)] s(2,3) in simp, rule must_saveI [OF _ s2(1)], assumption,
          rule must_fail_consumeI, assumption, use over [OF assms(3)] s2(2,3) in simp) simp
  qed simp
qed simp

lemma passes_ConsumeOnceConsumes:
  assumes "inv st0" and "suite_sessions ok E" and "suite_clock E t"
  shows "ConsumeOnceConsumes (tested st0) E = []"
proof (rule with_session_newSession [OF assms(2) suite_ids_in(4), of hour 0])
  fix s
  assume w: "\<And>k. with_session E 0 ''c1'' hour k = k s" and s: "ok s" "S_ID s = ''c1''" "\<not> S_Consumed s"
    "S_ExpiresAt s = trunc_second (t_clock E 0) + hour"
  have l: "\<And>m. t_clock E m < S_ExpiresAt s" "\<And>m. t_clock E m < S_ExpiresAt (s\<lparr>S_Consumed := True\<rparr>)"
    using live [OF assms(3)] s(4) by simp_all
  show ?thesis unfolding ConsumeOnceConsumes_def w tested_sel
    by (rule must_saveI [OF assms(1) s(1)], rule must_consumeI [OF _ _ l(1) s(3)], assumption, simp add: s(2),
        simp, rule must_fail_againI [OF _ _ l(2)], assumption, simp, simp,
        rule must_loadI [OF _ _ l(2)], assumption, simp, simp)
qed simp

lemma passes_ConsumeOnceUnknownIsNotFound:
  assumes "inv st0" and "view st0 = Map.empty"
  shows "ConsumeOnceUnknownIsNotFound (tested st0) E = []"
  unfolding ConsumeOnceUnknownIsNotFound_def tested_sel
  by (rule must_fail_consumeI [OF assms(1)]) (simp_all add: assms(2))

lemma passes_ConsumedMarkerSurvivesSave:
  assumes "inv st0" and "suite_sessions ok E" and "suite_clock E t"
  shows "ConsumedMarkerSurvivesSave (tested st0) E = []"
proof (rule with_session_newSession [OF assms(2) suite_ids_in(5), of hour 0])
  fix s
  assume w: "\<And>k. with_session E 0 ''c2'' hour k = k s"
    and s: "ok s" "ok (s\<lparr>S_Consumed := True, S_ResponseCode := ''minted-after-consume''\<rparr>)" "S_ID s = ''c2''"
    "\<not> S_Consumed s" "S_ExpiresAt s = trunc_second (t_clock E 0) + hour"
  let ?s = "s\<lparr>S_Consumed := True, S_ResponseCode := ''minted-after-consume''\<rparr>"
  have l: "\<And>m. t_clock E m < S_ExpiresAt s" "\<And>m. t_clock E m < S_ExpiresAt ?s"
    using live [OF assms(3)] s(5) by simp_all
  show ?thesis unfolding ConsumedMarkerSurvivesSave_def w tested_sel
    by (rule must_saveI [OF assms(1) s(1)], rule must_consumeI [OF _ _ l(1) s(4)], assumption, simp add: s(3),
        rule must_saveI [OF _ s(2)], assumption, rule must_fail_againI [OF _ _ l(2)], assumption, simp add: s(3), simp,
        rule must_loadI [OF _ _ l(2)], assumption, simp add: s(3), simp)
qed simp

lemma passes_ConcurrentConsumeExactlyOnce:
  assumes "inv st0" and "suite_sessions ok E" and "suite_clock E t"
  shows "ConcurrentConsumeExactlyOnce (tested st0) E = []"
proof (rule with_session_newSession [OF assms(2) suite_ids_in(6), of hour 0])
  fix s
  assume w: "\<And>k. with_session E 0 ''race'' hour k = k s" and s: "ok s" "S_ID s = ''race''" "\<not> S_Consumed s"
    "S_ExpiresAt s = trunc_second (t_clock E 0) + hour"
  have l: "\<And>m. t_clock E m < S_ExpiresAt s" using live [OF assms(3)] s(4) by simp
  have ops: "map (\<lambda>n. (t_clock E (Suc n), OpConsume ''race'')) [0..<goroutines]
      = map (\<lambda>t. (t, OpConsume ''race'')) (t_clock E 1 # map (\<lambda>n. t_clock E (Suc n)) [1..<goroutines])"
    by (simp add: goroutines_def upt_conv_Cons comp_def)
  show ?thesis unfolding ConcurrentConsumeExactlyOnce_def w tested_sel Let_def ops
  proof (rule must_saveI [OF assms(1) s(1)])
    fix st
    assume "inv st" and "view st = (view st0)(S_ID s \<mapsto> s)"
    then have v: "inv st" "view st ''race'' = Some s" using s(2) by simp_all
    let ?outs = "fst (store_run save load consume
        (map (\<lambda>t. (t, OpConsume ''race'')) (t_clock E 1 # map (\<lambda>n. t_clock E (Suc n)) [1..<goroutines])) st)"
    have "?outs = Got (Inr (s\<lparr>S_Consumed := True\<rparr>))
        # replicate (goroutines - 1) (Got (Inl (Sentinel ErrSessionConsumed)))"
      using race_exactly_one [OF v s(3), of "t_clock E 1" "map (\<lambda>n. t_clock E (Suc n)) [1..<goroutines]"] l
      by (simp del: store_run.simps)
    moreover have "filter won (replicate n (Got (Inl (Sentinel ErrSessionConsumed)))) = []"
        "filter conflict (replicate n (Got (Inl (Sentinel ErrSessionConsumed))))
          = replicate n (Got (Inl (Sentinel ErrSessionConsumed)))" for n
      by (simp_all add: won_def conflict_def)
    ultimately show "map (\<lambda>out. ''unexpected error'') (filter (\<lambda>out. \<not> won out \<and> \<not> conflict out) ?outs)
        @ (if length (filter won ?outs) \<noteq> 1 \<or> length (filter conflict ?outs) \<noteq> goroutines - 1
           then [''want exactly one win''] else []) = []"
      by (simp add: won_def conflict_def)
  qed
qed simp

theorem passes:
  assumes "inv st0" and "view st0 = Map.empty" and "suite_sessions ok E" and "suite_clock E t"
  shows "Run (tested st0) E zero = []"
  using assms
  by (simp add: Run_def passes_SaveLoadRoundtrip passes_LoadReturnsACopy passes_LoadUnknownIsNotFound
      passes_SaveRequiresID passes_ExpiredSessionIsNotFound passes_ConsumeOnceConsumes
      passes_ConsumeOnceUnknownIsNotFound passes_ConsumedMarkerSurvivesSave
      passes_ConcurrentConsumeExactlyOnce)

end


section \<open>MemStore passes\<close>

definition mem_under_test :: "('q, 'r) codec \<Rightarrow> ('q, 'r, mem) store_under_test" where
  "mem_under_test C =
     \<lparr>t_Save = mem_Save C, t_Load = mem_Load C, t_ConsumeOnce = mem_ConsumeOnce C, t_factory = NewMemStore\<rparr>"

text \<open>With the JSON form of sessions, what the suite needs is a query and references that marshal and come back.\<close>

definition suite_json :: "('q, 'r) json_lib \<Rightarrow> ('q, 'r) suite_env \<Rightarrow> bool" where
  "suite_json L E \<longleftrightarrow> t_Marshal E = session_marshal L
     \<and> (\<forall>n. \<forall>i \<in> set suite_ids. \<forall>ttl \<in> {hour, - minute}. \<exists>s raw.
          newSession E n i ttl = Inr s \<and> session_marshal L s = Inr raw \<and> parts_come_back L s)"

lemma suite_utf8:
  assumes "newSession E n i ttl = Inr s" and "i \<in> set suite_ids"
  shows "utf8_session s" and "S_ID s \<noteq> []"
proof -
  have "ascii i" "i \<noteq> []" using assms(2) by (auto simp: suite_ids_def)
  then have "ascii (''nonce-'' @ i)" "ascii (''state-'' @ i)" "ascii (''https://verifier.example.com/response/'' @ i)"
    by simp_all
  then show "utf8_session s" "S_ID s \<noteq> []"
    using assms(1) \<open>ascii i\<close> \<open>i \<noteq> []\<close>
    by (auto simp: newSession_def bindR_Inr_iff utf8_session_def flow_defs simp del: append.simps intro!: is_utf8_ascii)
qed

lemma suite_json_sessions:
  assumes "suite_json L E"
  shows "suite_sessions (storable (json_codec L)) E"
  unfolding suite_sessions_def
proof (intro ballI allI)
  fix i n ttl
  assume i: "i \<in> set suite_ids" and ttl: "ttl \<in> {hour, - minute}"
  then obtain s raw where s: "newSession E n i ttl = Inr s" "session_marshal L s = Inr raw" "parts_come_back L s"
    using assms unfolding suite_json_def by blast
  let ?s = "s\<lparr>S_Consumed := True, S_ResponseCode := ''minted-after-consume''\<rparr>"
  have u: "utf8_session s" "S_ID s \<noteq> []" by (rule suite_utf8 [OF s(1) i])+
  have "is_utf8 ''minted-after-consume''" by (rule is_utf8_ascii) simp
  then have "utf8_session ?s" using u(1) by (simp add: utf8_session_def)
  moreover have "\<exists>raw'. session_marshal L ?s = Inr raw'"
    using s(2) by (auto simp: session_marshal_def bindR_Inr_iff)
  moreover have "parts_come_back L ?s" using s(3) by (simp add: parts_come_back_def)
  ultimately have "storable (json_codec L) ?s" using u(2) json_storable [of L ?s] by auto
  moreover have "storable (json_codec L) s" using s u by (intro json_storable)
  ultimately show "\<exists>s. newSession E n i ttl = Inr s \<and> storable (json_codec L) s
      \<and> storable (json_codec L) (s\<lparr>S_Consumed := True, S_ResponseCode := ''minted-after-consume''\<rparr>)
      \<and> (\<exists>raw. t_Marshal E s = Inr raw)"
    using s assms by (auto simp: suite_json_def)
qed

definition sample_suite :: "(credential list, string) suite_env" where
  "sample_suite =
     \<lparr>t_NewRegistrationRef = (\<lambda>a b c d. Inr d), t_ZeroQuery = [], t_Marshal = session_marshal sample_json,
      t_clock = (\<lambda>n. 1000000000 * int n mod 59000000000)\<rparr>"

text \<open>
  C18: The reference store passes its own contract suite. \<open>storetest.Run\<close>, with its nine subtests, reports no
  failure for \<open>MemStore\<close>, whatever the order in which the goroutines get the mutex, provided that no subtest
  takes a minute, that there are registration references for its sessions and that they, like the empty
  query, marshal and come back.
\<close>

theorem mem_store_passes_suite:
  assumes "suite_json L E" and "suite_clock E t"
  shows "Run (mem_under_test (json_codec L)) E zero = []"
proof -
  have "mem_under_test (json_codec L) = mem_store.tested (json_codec L) NewMemStore"
    by (simp add: mem_under_test_def mem_store.tested_def)
  moreover have "mem_view (json_codec L) NewMemStore = Map.empty"
    by (auto simp: mem_view_def NewMemStore_def)
  ultimately show ?thesis
    using mem_store.passes [OF mem_inv_new _ suite_json_sessions [OF assms(1)] assms(2)] by simp
qed

lemma sample_time_text:
  assumes "- 60000000000 \<le> t" and "t < 80000000000000"
  shows "\<exists>x. time_text 60 t = Inr x"
proof -
  have "(t + 60 * 60000000000) div nanos_per_day = 0"
    using assms by (intro div_pos_pos_trivial) simp_all
  then show ?thesis by (simp add: time_text_def Let_def days_before_def)
qed

lemma sample_suite_json: "suite_json sample_json sample_suite"
proof -
  have "\<exists>s raw. newSession sample_suite n i ttl = Inr s \<and> session_marshal sample_json s = Inr raw
      \<and> parts_come_back sample_json s" if i: "i \<in> set suite_ids" and ttl: "ttl \<in> {hour, - minute}" for n i ttl
  proof -
    define created where "created = trunc_second (t_clock sample_suite n)"
    have "0 \<le> t_clock sample_suite n" "t_clock sample_suite n < 59000000000"
      by (simp_all add: sample_suite_def)
    then have c: "0 \<le> created" "created < 59000000000"
      using trunc_second_bounds [of "t_clock sample_suite n"]
      by (simp_all add: created_def trunc_second_def zmod_le_nonneg_dividend)
    obtain s where s: "newSession sample_suite n i ttl = Inr s" "S_CreatedAt s = created"
        "S_ExpiresAt s = created + ttl" "S_Query s = []" "S_Registration s = ''intended-use-'' @ i"
      by (simp add: newSession_def sample_suite_def created_def)
    obtain x y where "time_text 60 created = Inr x" "time_text 60 (created + ttl) = Inr y"
      using sample_time_text [of created] sample_time_text [of "created + ttl"] c ttl by auto
    with s have "\<exists>raw. session_marshal sample_json s = Inr raw"
      by (simp add: session_marshal_def sample_json_def)
    moreover have "is_utf8 i" using i by (auto simp: suite_ids_def is_utf8_ascii)
    then have "parts_come_back sample_json s"
      using s by (simp add: parts_come_back_def comes_back_def sample_json_def sample_query_from_def is_utf8_def)
    ultimately show ?thesis using s(1) by blast
  qed
  then show ?thesis by (simp add: suite_json_def sample_suite_def)
qed

theorem mem_store_passes_suite_witness: "Run (mem_under_test (json_codec sample_json)) sample_suite ''ref'' = []"
  by (rule mem_store_passes_suite [OF sample_suite_json, of 0]) (simp add: suite_clock_def sample_suite_def)

end
