(* ===== verification/Engine.thy ===== *)
theory Engine
  imports Sample Go_Url_Parse Go_Base64
begin

text \<open>
  Engine construction (\<open>engine.go\<close>): the configuration, the fail-closed validation in \<open>New\<close>, the
  check of base URLs, and the random tokens. The lemmas say what a constructed engine guarantees
  and what a token is.
\<close>

section \<open>Configuration\<close>

definition ClientIDPrefixX509SANDNS :: string where
  "ClientIDPrefixX509SANDNS = ''x509_san_dns''"

text \<open>\<open>5 * time.Minute\<close>, \<open>1 << 20\<close>, and the 16 bytes of a token.\<close>

definition DefaultSessionTTL :: int where "DefaultSessionTTL = 5 * 60 * 1000000000"
definition DefaultMaxResponseBody :: int where "DefaultMaxResponseBody = 1048576"
definition tokenBytes :: nat where "tokenBytes = 16"

record response_encryption =
  re_Curve :: string
  re_Alg :: string
  re_EncValues :: "string list"

record vp_formats =
  vf_SDJWTAlgValues :: "string list"
  vf_KBJWTAlgValues :: "string list"
  vf_MdocIssuerAuthAlgValues :: "int list"
  vf_MdocDeviceAuthAlgValues :: "int list"

record config =
  C_Keys :: "key_provider option"
  C_SigningKeyID :: string
  C_WRPACChain :: "cert option list"
  C_ClientDNSName :: string
  C_ClientIDPrefix :: string
  C_Policy :: "policy option"
  C_Clock :: "(nat \<Rightarrow> go_time) option"
  C_Rand :: "(nat \<Rightarrow> char option) option"
  C_RequestURIBase :: string
  C_RequestURIFunc :: "(string \<Rightarrow> string) option"
  C_UniversalLinkBase :: string
  C_SessionTTL :: int
  C_MaxResponseBody :: int
  C_ResponseEncryption :: response_encryption
  C_VPFormats :: vp_formats
  C_EnableTransactionData :: bool

record engine =
  e_cfg :: config
  e_policy :: policy
  e_clientID :: string
  e_clock :: "nat \<Rightarrow> go_time"
  e_rand :: "nat \<Rightarrow> char option"

section \<open>Base URLs\<close>

definition validBaseURL :: "('q, 'r) deps \<Rightarrow> string \<Rightarrow> err option" where
  "validBaseURL D raw =
     (case url_parse (ParseIPLiteral D) raw of
        None \<Rightarrow> Some (Foreign ''url.Parse'')
      | Some u \<Rightarrow>
          if U_Scheme u \<noteq> ''https'' \<or> U_Host u = [] then Some (Errorf [] [])
          else if U_RawQuery u \<noteq> [] \<or> U_Fragment u \<noteq> [] then Some (Errorf [] [])
          else None)"

definition trim_slash :: "string \<Rightarrow> string" where
  "trim_slash s = (if s \<noteq> [] \<and> last s = CHR ''/'' then butlast s else s)"

section \<open>New\<close>

definition all_jws_algs :: "vp_formats \<Rightarrow> string list" where
  "all_jws_algs v = vf_SDJWTAlgValues v @ vf_KBJWTAlgValues v"

definition all_cose_algs :: "vp_formats \<Rightarrow> int list" where
  "all_cose_algs v = vf_MdocIssuerAuthAlgValues v @ vf_MdocDeviceAuthAlgValues v"

text \<open>The checks of the WRPAC leaf and of the signing key.\<close>

definition check_leaf :: "config \<Rightarrow> key_provider \<Rightarrow> cert \<Rightarrow> err option" where
  "check_leaf cfg keys leaf =
     (if C_ClientDNSName cfg \<notin> set (DNSNames leaf) then
        Some (failq ErrSANMismatch (C_ClientDNSName cfg # DNSNames leaf))
      else
        (case kp_public keys (C_SigningKeyID cfg) of
           Inl e \<Rightarrow> Some (failw ErrConfig (Foreign e))
         | Inr (PubOther t) \<Rightarrow> Some (failq ErrConfig [t])
         | Inr (PubEC ecPub) \<Rightarrow>
             if CertPublicKey leaf \<noteq> PubEC ecPub then Some (failq ErrConfig []) else None))"

text \<open>The checks of every configured algorithm against the policy.\<close>

definition check_algs :: "config \<Rightarrow> policy \<Rightarrow> err option" where
  "check_algs cfg pol =
     (let re = C_ResponseEncryption cfg; vf = C_VPFormats cfg in
      if \<not> AllowedCurve pol (re_Curve re) then Some (failq ErrConfig [re_Curve re])
      else if re_EncValues re = [] then Some (failq ErrConfig [])
      else
        (case firstErr (\<lambda>enc. if AllowedJWEAlg pol (re_Alg re) enc then None
                              else Some (failq ErrConfig [re_Alg re, enc])) (re_EncValues re) of
           Some er \<Rightarrow> Some er
         | None \<Rightarrow>
             if vf_SDJWTAlgValues vf = [] \<or> vf_KBJWTAlgValues vf = []
                \<or> vf_MdocIssuerAuthAlgValues vf = [] \<or> vf_MdocDeviceAuthAlgValues vf = []
             then Some (failq ErrConfig [])
             else
               (case firstErr (\<lambda>alg. if AllowedJWSAlg pol alg then None
                                     else Some (failq ErrConfig [alg])) (all_jws_algs vf) of
                  Some er \<Rightarrow> Some er
                | None \<Rightarrow>
                    firstErr (\<lambda>alg. if AllowedCOSEAlg pol alg then None
                                    else Some (failq ErrConfig [int_dec alg])) (all_cose_algs vf))))"

definition check_urls :: "('q, 'r) deps \<Rightarrow> config \<Rightarrow> err option" where
  "check_urls D cfg =
     (case (if C_RequestURIFunc cfg = None then validBaseURL D (C_RequestURIBase cfg) else None) of
        Some er \<Rightarrow> Some (failw ErrConfig er)
      | None \<Rightarrow>
          (case validBaseURL D (C_UniversalLinkBase cfg) of
             Some er \<Rightarrow> Some (failw ErrConfig er)
           | None \<Rightarrow> None))"

definition resolve_policy :: "('q, 'r) deps \<Rightarrow> config \<Rightarrow> policy" where
  "resolve_policy D cfg = (case C_Policy cfg of None \<Rightarrow> ECCG D | Some p \<Rightarrow> p)"

text \<open>The engine with every default resolved and mirrored back onto the configuration.\<close>

definition make_engine :: "('q, 'r) deps \<Rightarrow> config \<Rightarrow> engine" where
  "make_engine D cfg =
     (let clock = (case C_Clock cfg of None \<Rightarrow> TimeNow D | Some c \<Rightarrow> c);
          rand = (case C_Rand cfg of None \<Rightarrow> CryptoRand D | Some r \<Rightarrow> r);
          pol = resolve_policy D cfg;
          cfg' = cfg\<lparr>C_RequestURIBase := trim_slash (C_RequestURIBase cfg),
                     C_SessionTTL := (if C_SessionTTL cfg \<le> 0 then DefaultSessionTTL else C_SessionTTL cfg),
                     C_MaxResponseBody := (if C_MaxResponseBody cfg \<le> 0 then DefaultMaxResponseBody
                                           else C_MaxResponseBody cfg),
                     C_Clock := Some clock, C_Rand := Some rand, C_Policy := Some pol\<rparr>
      in \<lparr>e_cfg = cfg', e_policy = pol,
          e_clientID = ClientIDPrefixX509SANDNS @ '':'' @ C_ClientDNSName cfg,
          e_clock = clock, e_rand = rand\<rparr>)"

definition New :: "('q, 'r) deps \<Rightarrow> config \<Rightarrow> err + engine" where
  "New D cfg =
     (case C_Keys cfg of
        None \<Rightarrow> Inl (failq ErrConfig [])
      | Some keys \<Rightarrow>
          if C_SigningKeyID cfg = [] then Inl (failq ErrConfig [])
          else
            (case C_WRPACChain cfg of
               [] \<Rightarrow> Inl (failq ErrConfig [])
             | None # _ \<Rightarrow> Inl (failq ErrConfig [])
             | Some leaf # _ \<Rightarrow>
                 if C_ClientDNSName cfg = [] then Inl (failq ErrConfig [])
                 else if C_ClientIDPrefix cfg \<noteq> [] \<and> C_ClientIDPrefix cfg \<noteq> ClientIDPrefixX509SANDNS
                 then Inl (failq ErrUnsupportedClientIDPrefix
                            [C_ClientIDPrefix cfg, ClientIDPrefixX509SANDNS])
                 else
                   (case check_leaf cfg keys leaf of
                      Some er \<Rightarrow> Inl er
                    | None \<Rightarrow>
                        (case check_algs cfg (resolve_policy D cfg) of
                           Some er \<Rightarrow> Inl er
                         | None \<Rightarrow>
                             (case check_urls D cfg of
                                Some er \<Rightarrow> Inl er
                              | None \<Rightarrow> Inr (make_engine D cfg))))))"

definition ClientID :: "engine \<Rightarrow> string" where
  "ClientID e = e_clientID e"

section \<open>Random tokens\<close>

text \<open>\<open>io.ReadFull\<close>: the bytes from position \<open>p\<close> on, and the position after them.\<close>

fun read_full :: "(nat \<Rightarrow> char option) \<Rightarrow> nat \<Rightarrow> nat \<Rightarrow> bytes option \<times> nat" where
  "read_full r p 0 = (Some [], p)"
| "read_full r p (Suc n) =
     (case r p of
        None \<Rightarrow> (None, p)
      | Some b \<Rightarrow>
          (case read_full r (Suc p) n of
             (None, p') \<Rightarrow> (None, p')
           | (Some bs, p') \<Rightarrow> (Some (b # bs), p')))"

definition randToken :: "(nat \<Rightarrow> char option) \<Rightarrow> nat \<Rightarrow> world \<Rightarrow> (err + string) \<times> world" where
  "randToken r n w =
     (case read_full r (w_rpos w) n of
        (None, p) \<Rightarrow> (Inl (Errorf [Foreign ''rand''] []), w\<lparr>w_rpos := p\<rparr>)
      | (Some b, p) \<Rightarrow> (Inr (b64_encode b), w\<lparr>w_rpos := p\<rparr>))"

text \<open>Sequencing of fallible steps with effects.\<close>

definition bindW :: "('e + 'a) \<times> 'w \<Rightarrow> ('a \<Rightarrow> 'w \<Rightarrow> ('e + 'b) \<times> 'w) \<Rightarrow> ('e + 'b) \<times> 'w" where
  "bindW m f = (case m of (Inl e, w) \<Rightarrow> (Inl e, w) | (Inr x, w) \<Rightarrow> f x w)"

lemma bindW_simps [simp]:
  "bindW (Inl e, w) f = (Inl e, w)"
  "bindW (Inr x, w) f = f x w"
  by (simp_all add: bindW_def)

lemma bindW_Inr [res_simps]:
  "bindW m f = (Inr y, w') \<longleftrightarrow> (\<exists>x w. m = (Inr x, w) \<and> f x w = (Inr y, w'))"
  by (auto simp: bindW_def split: prod.splits sum.splits)

lemma bindW_Inl [res_simps]:
  "bindW m f = (Inl e, w') \<longleftrightarrow> m = (Inl e, w') \<or> (\<exists>x w. m = (Inr x, w) \<and> f x w = (Inl e, w'))"
  by (auto simp: bindW_def split: prod.splits sum.splits)

section \<open>What New guarantees\<close>

lemma firstErr_guard: "firstErr (\<lambda>x. if P x then None else Some (g x)) xs = None \<longleftrightarrow> list_all P xs"
  by (auto simp: firstErr_None_iff list_all_iff split: if_splits)

lemma check_algs_None:
  "check_algs cfg pol = None \<longleftrightarrow>
     AllowedCurve pol (re_Curve (C_ResponseEncryption cfg))
     \<and> re_EncValues (C_ResponseEncryption cfg) \<noteq> []
     \<and> list_all (AllowedJWEAlg pol (re_Alg (C_ResponseEncryption cfg)))
         (re_EncValues (C_ResponseEncryption cfg))
     \<and> vf_SDJWTAlgValues (C_VPFormats cfg) \<noteq> [] \<and> vf_KBJWTAlgValues (C_VPFormats cfg) \<noteq> []
     \<and> vf_MdocIssuerAuthAlgValues (C_VPFormats cfg) \<noteq> []
     \<and> vf_MdocDeviceAuthAlgValues (C_VPFormats cfg) \<noteq> []
     \<and> list_all (AllowedJWSAlg pol) (all_jws_algs (C_VPFormats cfg))
     \<and> list_all (AllowedCOSEAlg pol) (all_cose_algs (C_VPFormats cfg))"
  by (simp add: check_algs_def Let_def guard_None case_first_None firstErr_guard)

lemma check_leaf_None:
  "check_leaf cfg keys leaf = None \<longleftrightarrow>
     C_ClientDNSName cfg \<in> set (DNSNames leaf)
     \<and> (\<exists>pk. kp_public keys (C_SigningKeyID cfg) = Inr (PubEC pk) \<and> CertPublicKey leaf = PubEC pk)"
  by (auto simp: check_leaf_def split: sum.splits public_key.splits)

lemma check_urls_None:
  "check_urls D cfg = None \<longleftrightarrow>
     (C_RequestURIFunc cfg = None \<longrightarrow> validBaseURL D (C_RequestURIBase cfg) = None)
     \<and> validBaseURL D (C_UniversalLinkBase cfg) = None"
  by (auto simp: check_urls_def case_first_None)

lemma validBaseURL_None:
  "validBaseURL D raw = None \<longleftrightarrow>
     (\<exists>u. url_parse (ParseIPLiteral D) raw = Some u \<and> U_Scheme u = ''https'' \<and> U_Host u \<noteq> []
        \<and> U_RawQuery u = [] \<and> U_Fragment u = [])"
  by (auto simp: validBaseURL_def split: option.splits)

lemma New_Inr:
  "New D cfg = Inr e \<longleftrightarrow>
     (\<exists>keys leaf rest. C_Keys cfg = Some keys \<and> C_WRPACChain cfg = Some leaf # rest
        \<and> C_SigningKeyID cfg \<noteq> [] \<and> C_ClientDNSName cfg \<noteq> []
        \<and> (C_ClientIDPrefix cfg = [] \<or> C_ClientIDPrefix cfg = ClientIDPrefixX509SANDNS)
        \<and> check_leaf cfg keys leaf = None
        \<and> check_algs cfg (resolve_policy D cfg) = None \<and> check_urls D cfg = None
        \<and> e = make_engine D cfg)"
  by (auto simp: New_def split: option.splits list.splits if_splits)

text \<open>An engine in use is one that \<open>New\<close> built.\<close>

definition built :: "('q, 'r) deps \<Rightarrow> engine \<Rightarrow> bool" where
  "built D e \<longleftrightarrow> (\<exists>cfg. New D cfg = Inr e)"

lemma make_engine_sel [simp]:
  "e_clientID (make_engine D cfg) = ClientIDPrefixX509SANDNS @ '':'' @ C_ClientDNSName cfg"
  "e_policy (make_engine D cfg) = resolve_policy D cfg"
  "C_Keys (e_cfg (make_engine D cfg)) = C_Keys cfg"
  "C_WRPACChain (e_cfg (make_engine D cfg)) = C_WRPACChain cfg"
  "C_SigningKeyID (e_cfg (make_engine D cfg)) = C_SigningKeyID cfg"
  "C_ClientDNSName (e_cfg (make_engine D cfg)) = C_ClientDNSName cfg"
  "C_ResponseEncryption (e_cfg (make_engine D cfg)) = C_ResponseEncryption cfg"
  "C_VPFormats (e_cfg (make_engine D cfg)) = C_VPFormats cfg"
  "C_EnableTransactionData (e_cfg (make_engine D cfg)) = C_EnableTransactionData cfg"
  "C_UniversalLinkBase (e_cfg (make_engine D cfg)) = C_UniversalLinkBase cfg"
  "C_RequestURIFunc (e_cfg (make_engine D cfg)) = C_RequestURIFunc cfg"
  "C_RequestURIBase (e_cfg (make_engine D cfg)) = trim_slash (C_RequestURIBase cfg)"
  by (simp_all add: make_engine_def Let_def)

lemma make_engine_bounds:
  "0 < C_SessionTTL (e_cfg (make_engine D cfg))"
  "0 < C_MaxResponseBody (e_cfg (make_engine D cfg))"
  by (simp_all add: make_engine_def Let_def DefaultSessionTTL_def DefaultMaxResponseBody_def)

lemma built_bounds: "built D e \<Longrightarrow> 0 < C_SessionTTL (e_cfg e) \<and> 0 < C_MaxResponseBody (e_cfg e)"
  by (auto simp: built_def New_Inr make_engine_bounds)

lemma built_clientID: "built D e \<Longrightarrow>
    e_clientID e = ClientIDPrefixX509SANDNS @ '':'' @ C_ClientDNSName (e_cfg e)
    \<and> C_ClientDNSName (e_cfg e) \<noteq> []"
  by (auto simp: built_def New_Inr)

section \<open>What a token is\<close>

lemma read_full_Some:
  "read_full r p n = (Some bs, p') \<Longrightarrow> length bs = n \<and> p' = p + n \<and> (\<forall>i < n. r (p + i) = Some (bs ! i))"
proof (induction n arbitrary: p bs p')
  case 0
  then show ?case by simp
next
  case (Suc n)
  then obtain b bs' where b: "r p = Some b" "read_full r (Suc p) n = (Some bs', p')" "bs = b # bs'"
    by (auto split: option.splits prod.splits)
  from Suc.IH [OF b(2)] show ?case
    by (auto simp: b nth_Cons less_Suc_eq_0_disj split: nat.splits)
qed

lemma randToken_Inr:
  "randToken r n w = (Inr tok, w') \<longleftrightarrow>
     (\<exists>bs p. read_full r (w_rpos w) n = (Some bs, p) \<and> tok = b64_encode bs \<and> w' = w\<lparr>w_rpos := p\<rparr>)"
  by (auto simp: randToken_def split: prod.splits option.splits)

lemma randToken_token:
  assumes "randToken r n w = (Inr tok, w')"
  shows "\<exists>bs. length bs = n \<and> b64_decode tok = Some bs \<and> tok = b64_encode bs
     \<and> (\<forall>i < n. r (w_rpos w + i) = Some (bs ! i)) \<and> w' = w\<lparr>w_rpos := w_rpos w + n\<rparr>"
  using assms by (auto simp: randToken_Inr b64_round_trip dest!: read_full_Some)

lemma randToken_ne: "randToken r n w = (Inr tok, w') \<Longrightarrow> 0 < n \<Longrightarrow> tok \<noteq> []"
  by (auto dest!: randToken_token)

lemma read_full_total: "\<forall>p. r p \<noteq> None \<Longrightarrow> \<exists>bs p'. read_full r p n = (Some bs, p')"
proof (induction n arbitrary: p)
  case (Suc n)
  obtain b where "r p = Some b" using Suc.prems by auto
  moreover obtain bs p' where "read_full r (Suc p) n = (Some bs, p')"
    using Suc.IH [OF Suc.prems, of "Suc p"] by auto
  ultimately show ?case by simp
qed simp

lemma randToken_total: "\<forall>p. r p \<noteq> None \<Longrightarrow> \<exists>tok w'. randToken r n w = (Inr tok, w')"
  using read_full_total [of r "w_rpos w" n] by (auto simp: randToken_def)

section \<open>A sample engine\<close>

definition sample_leaf :: cert where
  "sample_leaf = \<lparr>DNSNames = [''v.example''], CertPublicKey = PubEC sample_public, CertRaw = ''leaf''\<rparr>"

definition sample_cfg :: config where
  "sample_cfg =
     \<lparr>C_Keys = Some \<lparr>kp_name = ''static'', kp_public = (\<lambda>kid. Inr (PubEC sample_public))\<rparr>,
      C_SigningKeyID = ''wrpac'', C_WRPACChain = [Some sample_leaf],
      C_ClientDNSName = ''v.example'', C_ClientIDPrefix = [], C_Policy = None, C_Clock = None,
      C_Rand = None, C_RequestURIBase = ''https://v.example/request/'', C_RequestURIFunc = None,
      C_UniversalLinkBase = ''https://w.example/authorize'', C_SessionTTL = 0,
      C_MaxResponseBody = 0,
      C_ResponseEncryption = \<lparr>re_Curve = ''P-256'', re_Alg = ''ECDH-ES'',
        re_EncValues = [''A128GCM'', ''A256GCM'']\<rparr>,
      C_VPFormats = \<lparr>vf_SDJWTAlgValues = [''ES256''], vf_KBJWTAlgValues = [''ES256''],
        vf_MdocIssuerAuthAlgValues = [-7], vf_MdocDeviceAuthAlgValues = [-7]\<rparr>,
      C_EnableTransactionData = True\<rparr>"

definition sample_engine :: engine where
  "sample_engine = make_engine sample_deps sample_cfg"

lemma sample_new: "New sample_deps sample_cfg = Inr sample_engine"
  unfolding sample_engine_def New_Inr
  by (simp add: sample_cfg_def) code_simp

lemma sample_built: "built sample_deps sample_engine"
  using sample_new by (auto simp: built_def)

lemma sample_base: "C_UniversalLinkBase (e_cfg sample_engine) = ''https://w.example/authorize''"
  by (simp add: sample_engine_def sample_cfg_def)

section \<open>Properties\<close>

text \<open>What a configuration must satisfy: keys, leaf, policy, URLs.\<close>

definition leaf_ok :: "config \<Rightarrow> bool" where
  "leaf_ok cfg \<longleftrightarrow>
     (\<exists>keys leaf rest pk. C_Keys cfg = Some keys \<and> C_WRPACChain cfg = Some leaf # rest
        \<and> C_ClientDNSName cfg \<in> set (DNSNames leaf)
        \<and> CertPublicKey leaf = PubEC pk \<and> kp_public keys (C_SigningKeyID cfg) = Inr (PubEC pk))"

definition algs_ok :: "policy \<Rightarrow> config \<Rightarrow> bool" where
  "algs_ok pol cfg \<longleftrightarrow>
     (let re = C_ResponseEncryption cfg; vf = C_VPFormats cfg in
      AllowedCurve pol (re_Curve re) \<and> re_EncValues re \<noteq> []
      \<and> (\<forall>enc \<in> set (re_EncValues re). AllowedJWEAlg pol (re_Alg re) enc)
      \<and> [] \<notin> {vf_SDJWTAlgValues vf, vf_KBJWTAlgValues vf}
      \<and> [] \<notin> {vf_MdocIssuerAuthAlgValues vf, vf_MdocDeviceAuthAlgValues vf}
      \<and> (\<forall>alg \<in> set (vf_SDJWTAlgValues vf) \<union> set (vf_KBJWTAlgValues vf). AllowedJWSAlg pol alg)
      \<and> (\<forall>alg \<in> set (vf_MdocIssuerAuthAlgValues vf) \<union> set (vf_MdocDeviceAuthAlgValues vf).
           AllowedCOSEAlg pol alg))"

definition https_base :: "('q, 'r) deps \<Rightarrow> string \<Rightarrow> bool" where
  "https_base D raw \<longleftrightarrow>
     (\<exists>u. url_parse (ParseIPLiteral D) raw = Some u \<and> U_Scheme u = ''https'' \<and> U_Host u \<noteq> []
        \<and> U_RawQuery u = [] \<and> U_Fragment u = [])"

definition config_ok :: "('q, 'r) deps \<Rightarrow> config \<Rightarrow> bool" where
  "config_ok D cfg \<longleftrightarrow>
     C_SigningKeyID cfg \<noteq> [] \<and> C_ClientDNSName cfg \<noteq> []
     \<and> C_ClientIDPrefix cfg \<in> {[], ''x509_san_dns''}
     \<and> leaf_ok cfg \<and> algs_ok (resolve_policy D cfg) cfg
     \<and> (C_RequestURIFunc cfg \<noteq> None \<or> https_base D (C_RequestURIBase cfg))
     \<and> https_base D (C_UniversalLinkBase cfg)"

lemma check_algs_ok: "check_algs cfg pol = None \<longleftrightarrow> algs_ok pol cfg"
  by (auto simp: check_algs_None algs_ok_def Let_def list_all_iff all_jws_algs_def all_cose_algs_def)

lemma validBaseURL_ok: "validBaseURL D raw = None \<longleftrightarrow> https_base D raw"
  by (simp add: validBaseURL_None https_base_def)

lemma New_ok_iff: "New D cfg = Inr e \<longleftrightarrow> config_ok D cfg \<and> e = make_engine D cfg"
  by (auto simp: New_Inr config_ok_def leaf_ok_def check_leaf_None check_urls_None check_algs_ok
      validBaseURL_ok ClientIDPrefixX509SANDNS_def)

lemma built_base: "built D e \<Longrightarrow> https_base D (C_UniversalLinkBase (e_cfg e))"
  by (auto simp: built_def New_ok_iff config_ok_def)

text \<open>
  C21: Construction is fail-closed and not more: \<open>New\<close> returns an engine exactly for the configurations
  whose keys, leaf certificate, algorithms and base URLs satisfy \<open>config_ok\<close>. The engine then runs
  under the prefixed DNS name of the certificate, and its session lifetime and body limit are positive
  whatever was configured.
\<close>

theorem new_accepts_exactly:
  "(case New D cfg of
      Inr e \<Rightarrow> config_ok D cfg \<and> ClientID e = ''x509_san_dns:'' @ C_ClientDNSName cfg
        \<and> 0 < C_SessionTTL (e_cfg e) \<and> 0 < C_MaxResponseBody (e_cfg e)
    | Inl er \<Rightarrow> \<not> config_ok D cfg)"
proof (cases "New D cfg")
  case (Inl er)
  then show ?thesis using New_ok_iff [of D cfg "make_engine D cfg"] by auto
next
  case (Inr e)
  then have "config_ok D cfg" "e = make_engine D cfg" by (simp_all add: New_ok_iff)
  with Inr show ?thesis
    by (simp add: ClientID_def ClientIDPrefixX509SANDNS_def make_engine_bounds)
qed

text \<open>The errors of the operator: one sentinel of the configuration and no wallet error.\<close>

definition operator_err :: "err \<Rightarrow> bool" where
  "operator_err er \<longleftrightarrow> errors_as_wallet er = None
     \<and> (\<exists>s \<in> {ErrConfig, ErrSANMismatch, ErrUnsupportedClientIDPrefix}. sentinels er = [s])"

lemma operator_err_intros [intro, simp]:
  "operator_err (failq ErrConfig qs)" "operator_err (failq ErrSANMismatch qs)"
  "operator_err (failq ErrUnsupportedClientIDPrefix qs)" "operator_err (failw ErrConfig (Foreign f))"
  by (simp_all add: operator_err_def)

lemma check_leaf_err: "check_leaf cfg keys leaf = Some er \<Longrightarrow> operator_err er"
  by (auto simp: check_leaf_def split: if_splits sum.splits public_key.splits)

lemma firstErr_operator:
  "firstErr (\<lambda>x. if P x then None else Some (failq ErrConfig (f x))) xs = Some er \<Longrightarrow> operator_err er"
  by (drule firstErr_Some_D) (auto split: if_splits)

lemma check_algs_err: "check_algs cfg pol = Some er \<Longrightarrow> operator_err er"
  unfolding check_algs_def Let_def
  by (auto split: if_splits option.splits intro: firstErr_operator)

lemma check_urls_err:
  assumes "check_urls D cfg = Some er"
  shows "operator_err er"
proof -
  have base: "operator_err (failw ErrConfig e)" if "validBaseURL D raw = Some e" for e raw
    using that by (auto simp: validBaseURL_def operator_err_def failw_def split: option.splits if_splits)
  from assms show ?thesis
    by (auto simp: check_urls_def split: option.splits if_splits intro: base)
qed

lemma New_err: "New D cfg = Inl er \<Longrightarrow> operator_err er"
  by (auto simp: New_def split: option.splits list.splits if_splits
      intro: check_leaf_err check_algs_err check_urls_err)

text \<open>
  Every refusal of \<open>New\<close> is an operator's error: it carries one sentinel of the configuration, and
  would be answered with status 500.
\<close>

theorem new_refusal_is_internal:
  assumes "New D cfg = Inl er"
  shows "\<exists>s \<in> {ErrConfig, ErrSANMismatch, ErrUnsupportedClientIDPrefix}.
     (\<forall>t. errors_is er t \<longleftrightarrow> t = s) \<and> fst (ErrorResponse (Some er)) = 500"
proof -
  obtain s where "s \<in> {ErrConfig, ErrSANMismatch, ErrUnsupportedClientIDPrefix}"
      "sentinels er = [s]" "errors_as_wallet er = None"
    using New_err [OF assms] unfolding operator_err_def by blast
  then show ?thesis using ErrorResponse_single [of er s] by (auto simp: status_spec_def)
qed

theorem new_refusal_is_internal_witness:
  "fst (ErrorResponse (Some (failq ErrUnsupportedClientIDPrefix [''did'', ''x509_san_dns'']))) = 500"
  using new_refusal_is_internal [of sample_deps "sample_cfg\<lparr>C_ClientIDPrefix := ''did''\<rparr>"
      "failq ErrUnsupportedClientIDPrefix [''did'', ''x509_san_dns'']"]
  by (auto simp: New_def sample_cfg_def ClientIDPrefixX509SANDNS_def)

end
