(* ===== verification/Transaction_Data.thy ===== *)
theory Transaction_Data
  imports Engine
begin

text \<open>
  Transaction data (\<open>transactiondata.go\<close>): the request member, the validation of entries, the
  expected hashes, and the comparison with the hashes a wallet echoes. The comparison counts
  occurrences; \<open>echo_matches_iff\<close> shows that it decides equality of multisets.
\<close>

section \<open>Request member and validation\<close>

definition transactionDataStrings :: "bytes list \<Rightarrow> jvalue" where
  "transactionDataStrings td = JArr (map (\<lambda>e. JStr (b64_encode e)) td)"

text \<open>One entry decodes into a non-nil \<open>map[string]json.RawMessage\<close>; what follows it is not read.\<close>

definition is_object_entry :: "bytes \<Rightarrow> bool" where
  "is_object_entry e =
     (case json_prefix e of
        None \<Rightarrow> False
      | Some (v, rest) \<Rightarrow>
          (case into_raw_map v None of None \<Rightarrow> False | Some None \<Rightarrow> False | Some (Some m) \<Rightarrow> True))"

fun validate_entries :: "nat \<Rightarrow> bytes list \<Rightarrow> err option" where
  "validate_entries i [] = None"
| "validate_entries i (e # es) =
     (if \<not> is_object_entry e then Some (failq ErrTransactionDataInvalid [nat_dec i])
      else validate_entries (Suc i) es)"

definition validateTransactionData :: "bytes list \<Rightarrow> err option" where
  "validateTransactionData td = validate_entries 0 td"

section \<open>Expected hashes\<close>

definition TransactionDataHashes ::
    "('q, 'r) deps \<Rightarrow> bytes list \<Rightarrow> string \<Rightarrow> policy option \<Rightarrow> err + string list" where
  "TransactionDataHashes D td alg po =
     (let pol = (case po of None \<Rightarrow> ECCG D | Some p \<Rightarrow> p) in
      case HashForAlg pol alg of
        Inl e \<Rightarrow> Inl (Foreign e)
      | Inr h \<Rightarrow>
          if \<not> h_available h then Inl (Errorf [Foreign ''crypto.ErrAlgorithmNotAllowed''] [alg])
          else Inr (map (\<lambda>e. b64_encode (h_sum h (b64_encode e))) td))"

section \<open>Comparing with the echo\<close>

text \<open>\<open>remaining\<close>, a \<open>map[string]int\<close>: a missing key counts 0.\<close>

definition count_hashes :: "string list \<Rightarrow> string \<Rightarrow> int" where
  "count_hashes want = fold (\<lambda>w r. r(w := r w + 1)) want (\<lambda>_. 0)"

fun echo_matches :: "(string \<Rightarrow> int) \<Rightarrow> string list \<Rightarrow> bool" where
  "echo_matches remaining [] = True"
| "echo_matches remaining (got # gs) =
     (if remaining got = 0 then False
      else echo_matches (remaining(got := remaining got - 1)) gs)"

definition ValidateTransactionDataEcho ::
    "('q, 'r) deps \<Rightarrow> engine \<Rightarrow> ('q, 'r) session option \<Rightarrow> string list \<Rightarrow> string \<Rightarrow> err option" where
  "ValidateTransactionDataEcho D e so echoed alg =
     (case so of
        None \<Rightarrow> Some (Sentinel ErrSessionInvalid)
      | Some s \<Rightarrow>
          if S_TransactionData s \<noteq> [] \<and> \<not> C_EnableTransactionData (e_cfg e) then
            Some (Sentinel ErrTransactionDataDisabled)
          else if S_TransactionData s = [] then
            (if echoed \<noteq> [] then Some (Sentinel ErrTransactionDataUnexpected) else None)
          else if echoed = [] then Some (Sentinel ErrTransactionDataMissing)
          else
            (case TransactionDataHashes D (S_TransactionData s) alg (Some (e_policy e)) of
               Inl er \<Rightarrow> Some er
             | Inr want \<Rightarrow>
                 if length want \<noteq> length echoed then Some (Sentinel ErrTransactionDataMismatch)
                 else if echo_matches (count_hashes want) echoed then None
                 else Some (Sentinel ErrTransactionDataMismatch)))"

section \<open>Lemmas\<close>

lemma count_hashes_mset: "count_hashes want x = int (count (mset want) x)"
proof -
  have "fold (\<lambda>w r. r(w := r w + 1)) want f x = f x + int (count (mset want) x)"
    for f :: "string \<Rightarrow> int"
    by (induction want arbitrary: f) auto
  then show ?thesis by (simp add: count_hashes_def)
qed

lemma echo_matches_submset:
  "(\<And>x. r x = int (count M x)) \<Longrightarrow> echo_matches r gs \<longleftrightarrow> mset gs \<subseteq># M"
proof (induction gs arbitrary: r M)
  case Nil
  show ?case by simp
next
  case (Cons g gs)
  show ?case
  proof (cases "g \<in># M")
    case False
    then show ?thesis using Cons.prems [of g]
      by (simp add: insert_subset_eq_iff count_eq_zero_iff)
  next
    case True
    then have "echo_matches (r(g := r g - 1)) gs \<longleftrightarrow> mset gs \<subseteq># M - {#g#}"
      using Cons.prems by (intro Cons.IH) (auto simp: of_nat_diff Suc_leI)
    then show ?thesis using True Cons.prems [of g]
      by (auto simp: insert_subset_eq_iff count_eq_zero_iff)
  qed
qed

text \<open>With equal lengths, the counting loop decides whether the echo is a permutation.\<close>

lemma echo_matches_iff:
  assumes "length want = length echoed"
  shows "echo_matches (count_hashes want) echoed \<longleftrightarrow> mset echoed = mset want"
proof -
  have "echo_matches (count_hashes want) echoed \<longleftrightarrow> mset echoed \<subseteq># mset want"
    by (rule echo_matches_submset) (rule count_hashes_mset)
  also have "\<dots> \<longleftrightarrow> mset echoed = mset want"
    using assms by (metis mset_subset_eq_exists_conv size_mset size_union add_cancel_left_right
        size_eq_0_iff_empty subset_mset.order_refl)
  finally show ?thesis .
qed

lemma TransactionDataHashes_length:
  "TransactionDataHashes D td alg po = Inr hs \<Longrightarrow> length hs = length td"
  by (auto simp: TransactionDataHashes_def Let_def split: sum.splits if_splits)

lemma TransactionDataHashes_err: "TransactionDataHashes D td alg po = Inl er \<Longrightarrow> sentinels er = []"
  by (auto simp: TransactionDataHashes_def Let_def split: sum.splits if_splits)

lemma validate_entries_None: "validate_entries i td = None \<longleftrightarrow> list_all is_object_entry td"
  by (induction td arbitrary: i) auto

lemma validate_entries_Some: "validate_entries i td = Some er \<Longrightarrow>
    \<exists>n. er = failq ErrTransactionDataInvalid [nat_dec n]"
  by (induction td arbitrary: i) (auto split: if_splits)

lemma is_object_entry_iff: "is_object_entry e \<longleftrightarrow> (\<exists>ms rest. json_prefix e = Some (JObj ms, rest))"
  by (auto simp: is_object_entry_def into_raw_map_def split: option.splits prod.splits jvalue.splits)

lemma validate_entries_first:
  "validate_entries k td = Some er \<longleftrightarrow>
     (\<exists>i < length td. er = failq ErrTransactionDataInvalid [nat_dec (k + i)]
        \<and> \<not> is_object_entry (td ! i) \<and> (\<forall>j < i. is_object_entry (td ! j)))"
proof (induction td arbitrary: k)
  case Nil
  show ?case by simp
next
  case (Cons e es)
  show ?case
    by (cases "is_object_entry e")
      (auto simp: Cons.IH Ex_less_Suc2 All_less_Suc2 nth_Cons split: nat.splits)
qed

lemma hashes_Inr:
  "TransactionDataHashes D td alg (Some pol) = Inr hs \<longleftrightarrow>
     (\<exists>h. HashForAlg pol alg = Inr h \<and> h_available h
        \<and> hs = map (\<lambda>e. b64_encode (h_sum h (b64_encode e))) td)"
  by (auto simp: TransactionDataHashes_def Let_def split: sum.splits if_splits)

lemma mset_map_inj_on:
  "inj_on f (set xs \<union> set ys) \<Longrightarrow> mset (map f xs) = mset (map f ys) \<longleftrightarrow> mset xs = mset ys"
proof
  assume inj: "inj_on f (set xs \<union> set ys)" and eq: "mset (map f xs) = mset (map f ys)"
  let ?g = "the_inv_into (set xs \<union> set ys) f"
  have preimage: "image_mset ?g (mset (map f zs)) = mset zs" if "set zs \<subseteq> set xs \<union> set ys" for zs
  proof -
    have "image_mset ?g (mset (map f zs)) = image_mset (\<lambda>x. ?g (f x)) (mset zs)"
      by (simp add: image_mset.compositionality comp_def)
    also have "\<dots> = image_mset (\<lambda>x. x) (mset zs)"
      by (rule image_mset_cong) (use that the_inv_into_f_f [OF inj] in auto)
    finally show ?thesis by simp
  qed
  show "mset xs = mset ys"
    using preimage [OF Un_upper1] preimage [OF Un_upper2] unfolding eq by (rule trans [OF sym])
next
  assume "mset xs = mset ys"
  then show "mset (map f xs) = mset (map f ys)" by simp
qed

lemma echo_None_iff:
  "ValidateTransactionDataEcho D e (Some s) echoed alg = None \<longleftrightarrow>
     (if S_TransactionData s = [] then echoed = []
      else C_EnableTransactionData (e_cfg e)
        \<and> (\<exists>want. TransactionDataHashes D (S_TransactionData s) alg (Some (e_policy e)) = Inr want
             \<and> mset echoed = mset want))"
proof (cases "S_TransactionData s = [] \<or> \<not> C_EnableTransactionData (e_cfg e) \<or> echoed = []")
  case True
  then show ?thesis
    using TransactionDataHashes_length [of D "S_TransactionData s" alg "Some (e_policy e)"]
    by (auto simp: ValidateTransactionDataEcho_def split: sum.splits)
next
  case False
  then show ?thesis
    using echo_matches_iff [of _ echoed]
    by (auto simp: ValidateTransactionDataEcho_def split: sum.splits dest: mset_eq_length)
qed

section \<open>Properties\<close>

text \<open>
  C26: The echo check decides equality up to order. A session without transaction data accepts only an
  empty echo; one with transaction data accepts an echo exactly when the extension is enabled, the
  hash algorithm is allowed and available, and the echoed hashes are the expected ones with their
  multiplicities, in any order.
\<close>

theorem transaction_echo_iff:
  "ValidateTransactionDataEcho D e (Some s) echoed alg = None \<longleftrightarrow>
     (if S_TransactionData s = [] then echoed = []
      else C_EnableTransactionData (e_cfg e)
        \<and> (\<exists>want. TransactionDataHashes D (S_TransactionData s) alg (Some (e_policy e)) = Inr want
             \<and> mset echoed = mset want))"
by (rule echo_None_iff)

text \<open>
  The hashes are those of the strings that were sent: the expected hashes are, entry by entry, the
  encoded digests of exactly the strings of the \<open>transaction_data\<close> request member, and these decode
  back to the session's entries.
\<close>

theorem transaction_hashes_of_sent:
  assumes "TransactionDataHashes D td alg (Some pol) = Inr hs"
  shows "\<exists>h sent. HashForAlg pol alg = Inr h \<and> h_available h
    \<and> transactionDataStrings td = JArr (map JStr sent)
    \<and> hs = map (\<lambda>x. b64_encode (h_sum h x)) sent
    \<and> map b64_decode sent = map Some td"
  using assms
  using b64.dec_all [of td]
  by (auto simp: hashes_Inr transactionDataStrings_def comp_def intro!: exI [of _ "map b64_encode td"])

theorem transaction_hashes_of_sent_witness:
  "\<exists>h sent. HashForAlg sample_policy ''ES256'' = Inr h \<and> h_available h
    \<and> transactionDataStrings [''{}'', ''{ }''] = JArr (map JStr sent)
    \<and> map (\<lambda>e. b64_encode (h_sum sample_hash (b64_encode e))) [''{}'', ''{ }'']
        = map (\<lambda>x. b64_encode (h_sum h x)) sent
    \<and> map b64_decode sent = map Some [''{}'', ''{ }'']"
  by (rule transaction_hashes_of_sent [where D = sample_deps])
    (simp add: hashes_Inr sample_policy_def sample_hash_def)

text \<open>
  C27: The echo binds the response to the transaction data that was requested: a wallet that echoes the
  hashes of other entries is accepted only if they are the session's entries up to order, as long as
  the digest does not collide on the entries involved.
\<close>

theorem transaction_echo_binds:
  assumes "S_TransactionData s \<noteq> []" and "C_EnableTransactionData (e_cfg e)"
    and "HashForAlg (e_policy e) alg = Inr h"
    and "inj_on (h_sum h) (b64_encode ` (set (S_TransactionData s) \<union> set td))"
    and "TransactionDataHashes D td alg (Some (e_policy e)) = Inr echoed"
  shows "ValidateTransactionDataEcho D e (Some s) echoed alg = None
    \<longleftrightarrow> mset td = mset (S_TransactionData s)"
proof -
  let ?f = "\<lambda>x. b64_encode (h_sum h (b64_encode x))"
  have inj: "inj_on ?f (set td \<union> set (S_TransactionData s))"
    using assms(4) by (auto simp: inj_on_def b64.inject)
  have "ValidateTransactionDataEcho D e (Some s) echoed alg = None
      \<longleftrightarrow> mset (map ?f td) = mset (map ?f (S_TransactionData s))"
    using assms(1-3,5) by (auto simp: echo_None_iff hashes_Inr)
  then show ?thesis by (simp only: mset_map_inj_on [OF inj])
qed

theorem transaction_echo_binds_witness:
  "ValidateTransactionDataEcho sample_deps sample_engine
     (Some (sample_session\<lparr>S_TransactionData := [''{}'', ''{ }'']\<rparr>))
     (map (\<lambda>e. b64_encode (h_sum sample_hash (b64_encode e))) [''{ }'', ''{}'']) ''ES256'' = None"
  by (subst transaction_echo_binds [where td = "[''{ }'', ''{}'']" and h = sample_hash])
    (simp_all add: hashes_Inr sample_engine_def sample_cfg_def resolve_policy_def sample_deps_def
      sample_policy_def sample_hash_def, code_simp)

text \<open>
  Validation at session creation accepts transaction data exactly when every entry begins with a JSON
  object, and otherwise reports the index of the first entry that does not.
\<close>

theorem transaction_data_validation:
  "(case validateTransactionData td of
      None \<Rightarrow> \<forall>e \<in> set td. \<exists>ms rest. json_prefix e = Some (JObj ms, rest)
    | Some er \<Rightarrow> \<exists>i < length td. er = failq ErrTransactionDataInvalid [nat_dec i]
        \<and> (\<nexists>ms rest. json_prefix (td ! i) = Some (JObj ms, rest))
        \<and> (\<forall>j < i. \<exists>ms rest. json_prefix (td ! j) = Some (JObj ms, rest)))"
proof (cases "validateTransactionData td")
  case None
  then have "\<forall>e \<in> set td. is_object_entry e"
    by (simp add: validateTransactionData_def validate_entries_None list_all_iff)
  with None show ?thesis by (simp add: is_object_entry_iff)
next
  case (Some er)
  then obtain i where "i < length td" "er = failq ErrTransactionDataInvalid [nat_dec i]"
      "\<not> is_object_entry (td ! i)" "\<forall>j < i. is_object_entry (td ! j)"
    by (auto simp: validateTransactionData_def validate_entries_first)
  with Some show ?thesis by (auto simp: is_object_entry_iff)
qed

theorem transaction_data_validation_witness:
  "validateTransactionData [''{}'', ''[1]''] = Some (failq ErrTransactionDataInvalid [nat_dec 1])"
proof -
  have "validateTransactionData [''{}'', ''[1]''] \<noteq> None" by code_simp
  then obtain er where er: "validateTransactionData [''{}'', ''[1]''] = Some er" by auto
  moreover have "json_prefix ''{}'' = Some (JObj [], [])" by code_simp
  ultimately show ?thesis
    using transaction_data_validation [of "[''{}'', ''[1]'']"]
    by (auto simp: less_Suc_eq numeral_2_eq_2)
qed

text \<open>
  What follows the object in an entry is not looked at, although the comment on
  \<open>validateTransactionData\<close> says that each entry is a JSON object: an entry with trailing garbage
  passes.
\<close>

theorem transaction_data_trailing_accepted:
  "validateTransactionData [''{} garbage''] = None"
  by code_simp

end
