(* ===== verification/Request_Object.thy ===== *)
theory Request_Object
  imports Transaction_Data
begin

text \<open>
  The signed request object of the \<open>request_uri\<close> flows (\<open>requestobject.go\<close>) and the request members
  of the Digital Credentials API (the first half of \<open>dcapi.go\<close>), which share the client metadata,
  the registration member and the gating of transaction data.

  A claim set is a Go map built member by member; its values are marshalled when the payload is,
  which matters for the query, whose encoding belongs to \<open>go-dcql\<close> and can fail.
\<close>

section \<open>Claim sets\<close>

datatype 'q any = AnyJ jvalue | AnyQ 'q

type_synonym 'q claims = "(string \<times> 'q any) list"

definition typOAuthAuthzReq :: string where "typOAuthAuthzReq = ''oauth-authz-req+jwt''"
definition audWallet :: string where "audWallet = ''https://self-issued.me/v2''"
definition memberRegistration :: string where "memberRegistration = ''verifier_registration''"
definition memberVerifierInfo :: string where "memberVerifierInfo = ''verifier_info''"

abbreviation str :: "string \<Rightarrow> 'q any" where "str s \<equiv> AnyJ (JStr s)"
abbreviation num :: "int \<Rightarrow> 'q any" where "num i \<equiv> AnyJ (JNum (int_dec i))"

text \<open>A nil slice marshals as \<open>null\<close>.\<close>

definition strings_json :: "string list \<Rightarrow> jvalue" where
  "strings_json xs = (if xs = [] then JNull else JArr (map JStr xs))"

definition ints_json :: "int list \<Rightarrow> jvalue" where
  "ints_json xs = (if xs = [] then JNull else JArr (map (\<lambda>i. JNum (int_dec i)) xs))"

fun marshal_any :: "('q, 'r) deps \<Rightarrow> 'q any \<Rightarrow> string + jvalue" where
  "marshal_any D (AnyJ v) = Inr v"
| "marshal_any D (AnyQ q) = QueryJSON D q"

definition marshal_claims :: "('q, 'r) deps \<Rightarrow> 'q claims \<Rightarrow> string + jvalue" where
  "marshal_claims D cs =
     (case mapR (\<lambda>(k, v). map_sum id (Pair k) (marshal_any D v)) cs of
        Inl e \<Rightarrow> Inl e
      | Inr ms \<Rightarrow> Inr (json_map ms))"

section \<open>Client metadata\<close>

definition ephemeralJWK :: "ec_public \<Rightarrow> string \<Rightarrow> string \<Rightarrow> err + jvalue" where
  "ephemeralJWK pub alg kid =
     (case pk_point pub of
        Inl e \<Rightarrow> Inl (failw ErrConfig (Foreign e))
      | Inr point \<Rightarrow>
          (let size = (pk_bits pub + 7) div 8 in
           if length point \<noteq> 1 + 2 * size then Inl (failq ErrConfig [nat_dec (length point)])
           else Inr (json_map
             [(''kty'', JStr ''EC''),
              (''crv'', JStr (pk_curve pub)),
              (''x'', JStr (b64_encode (take size (drop 1 point)))),
              (''y'', JStr (b64_encode (drop (1 + size) point))),
              (''use'', JStr ''enc''),
              (''alg'', JStr alg),
              (''kid'', JStr kid)])))"

definition clientMetadata :: "('q, 'r) deps \<Rightarrow> engine \<Rightarrow> ('q, 'r) session \<Rightarrow> err + jvalue" where
  "clientMetadata D e s =
     (case ephemeralPrivateKey D s of
        Inl er \<Rightarrow> Inl er
      | Inr priv \<Rightarrow>
          (case ephemeralJWK (sk_public priv) (re_Alg (C_ResponseEncryption (e_cfg e))) (S_ID s) of
             Inl er \<Rightarrow> Inl er
           | Inr jwk \<Rightarrow>
               (let vf = C_VPFormats (e_cfg e) in
                Inr (json_map
                  [(''jwks'', JObj [(''keys'', JArr [jwk])]),
                   (''encrypted_response_enc_values_supported'',
                      strings_json (re_EncValues (C_ResponseEncryption (e_cfg e)))),
                   (''vp_formats_supported'', json_map
                      [(FormatSDJWT D, json_map
                          [(''sd-jwt_alg_values'', strings_json (vf_SDJWTAlgValues vf)),
                           (''kb-jwt_alg_values'', strings_json (vf_KBJWTAlgValues vf))]),
                       (FormatMdoc D, json_map
                          [(''issuerauth_alg_values'', ints_json (vf_MdocIssuerAuthAlgValues vf)),
                           (''deviceauth_alg_values'', ints_json (vf_MdocDeviceAuthAlgValues vf))])])]))))"

section \<open>Shared members\<close>

definition isZeroRegistration :: "('q, 'r) deps \<Rightarrow> 'r \<Rightarrow> bool" where
  "isZeroRegistration D r = (r = ZeroRef D)"

definition registration_claim :: "('q, 'r) deps \<Rightarrow> ('q, 'r) session \<Rightarrow> err + jvalue" where
  "registration_claim D s =
     (if isZeroRegistration D (S_Registration s) then Inl (Sentinel ErrNoRegistration)
      else (case RefClaims D (S_Registration s) of
              Inl e \<Rightarrow> Inl (failw ErrNoRegistration (Foreign e))
            | Inr c \<Rightarrow> Inr c))"

definition verifier_info_members :: "('q, 'r) session \<Rightarrow> 'q claims" where
  "verifier_info_members s =
     (if S_WRPRC s \<noteq> [] then
        [(memberVerifierInfo,
          AnyJ (JArr [json_map [(''format'', JStr ''jwt''), (''data'', JStr (S_WRPRC s))]]))]
      else [])"

definition transaction_data_members :: "engine \<Rightarrow> ('q, 'r) session \<Rightarrow> 'q claims" where
  "transaction_data_members e s =
     (if S_TransactionData s \<noteq> [] \<and> C_EnableTransactionData (e_cfg e) then
        [(''transaction_data'', AnyJ (transactionDataStrings (S_TransactionData s)))]
      else [])"

section \<open>The request object\<close>

definition requestClaims ::
    "('q, 'r) deps \<Rightarrow> engine \<Rightarrow> ('q, 'r) session \<Rightarrow> world \<Rightarrow> (err + 'q claims) \<times> world" where
  "requestClaims D e s w =
     (case registration_claim D s of
        Inl er \<Rightarrow> (Inl er, w)
      | Inr regClaim \<Rightarrow>
          (case clientMetadata D e s of
             Inl er \<Rightarrow> (Inl er, w)
           | Inr cm \<Rightarrow>
               (case tick (e_clock e) w of
                  (now, w') \<Rightarrow>
                    (Inr
                      ([(''iss'', str (e_clientID e)),
                        (''aud'', str audWallet),
                        (''iat'', num (time_unix now)),
                        (''nbf'', num (time_unix now)),
                        (''exp'', num (time_unix (S_ExpiresAt s))),
                        (''client_id'', str (e_clientID e)),
                        (''response_type'', str ''vp_token''),
                        (''response_mode'', str ''direct_post.jwt''),
                        (''response_uri'', str (S_ResponseURI s)),
                        (''nonce'', str (S_Nonce s)),
                        (''state'', str (S_State s)),
                        (''dcql_query'', AnyQ (S_Query s)),
                        (''client_metadata'', AnyJ cm),
                        (memberRegistration, AnyJ regClaim)]
                       @ verifier_info_members s @ transaction_data_members e s), w'))))"

text \<open>\<open>crypto.SignJWS\<close> with the WRPAC chain; it draws randomness of its own.\<close>

definition sign_request ::
    "('q, 'r) deps \<Rightarrow> engine \<Rightarrow> bytes \<Rightarrow> world \<Rightarrow> (err + bytes) \<times> world" where
  "sign_request D e payload w =
     (case SignJWS D (C_Keys (e_cfg e)) (C_SigningKeyID (e_cfg e))
             \<lparr>hdr_typ = typOAuthAuthzReq, hdr_x5c = C_WRPACChain (e_cfg e)\<rparr>
             payload (w_entropy w) of
        Inl er \<Rightarrow> (Inl (Foreign er), w\<lparr>w_entropy := Suc (w_entropy w)\<rparr>)
      | Inr tok \<Rightarrow> (Inr tok, w\<lparr>w_entropy := Suc (w_entropy w)\<rparr>))"

text \<open>The result, the session as the call leaves it, and the world.\<close>

definition RequestObjectJWT ::
    "('q, 'r) deps \<Rightarrow> engine \<Rightarrow> ('q, 'r) session option \<Rightarrow> world
     \<Rightarrow> (err + bytes) \<times> ('q, 'r) session option \<times> world" where
  "RequestObjectJWT D e so w =
     (case so of
        None \<Rightarrow> (Inl (Sentinel ErrSessionInvalid), so, w)
      | Some s \<Rightarrow>
          if S_Flow s = DCAPI then (Inl (failq ErrFlowMismatch []), so, w)
          else
            (case tick (e_clock e) w of
               (now, w1) \<Rightarrow>
                 if \<not> live_at now s then (Inl (Sentinel ErrSessionExpired), so, w1)
                 else if S_RequestObjectServed s then (Inl (Sentinel ErrRequestURIConsumed), so, w1)
                 else
                   (case requestClaims D e s w1 of
                      (Inl er, w2) \<Rightarrow> (Inl er, so, w2)
                    | (Inr claims, w2) \<Rightarrow>
                        (case marshal_claims D claims of
                           Inl er \<Rightarrow> (Inl (failw ErrConfig (Foreign er)), so, w2)
                         | Inr payload \<Rightarrow>
                             (case sign_request D e (json_print payload) w2 of
                                (Inl er, w3) \<Rightarrow> (Inl er, so, w3)
                              | (Inr tok, w3) \<Rightarrow>
                                  (Inr tok, Some (s\<lparr>S_RequestObjectServed := True\<rparr>), w3))))))"

section \<open>Digital Credentials API requests\<close>

definition dcapiProtocolSigned :: string where
  "dcapiProtocolSigned = ''openid4vp-v1-signed''"
definition dcapiProtocolUnsigned :: string where
  "dcapiProtocolUnsigned = ''openid4vp-v1-unsigned''"

definition dcapiClaims ::
    "('q, 'r) deps \<Rightarrow> engine \<Rightarrow> ('q, 'r) session \<Rightarrow> bool \<Rightarrow> world \<Rightarrow> (err + 'q claims) \<times> world" where
  "dcapiClaims D e s signed w =
     (case registration_claim D s of
        Inl er \<Rightarrow> (Inl er, w)
      | Inr regClaim \<Rightarrow>
          (case clientMetadata D e s of
             Inl er \<Rightarrow> (Inl er, w)
           | Inr cm \<Rightarrow>
               (let claims =
                  [(''response_type'', str ''vp_token''),
                   (''response_mode'', str ''dc_api.jwt''),
                   (''nonce'', str (S_Nonce s)),
                   (''dcql_query'', AnyQ (S_Query s)),
                   (''client_metadata'', AnyJ cm),
                   (memberRegistration, AnyJ regClaim)]
                  @ verifier_info_members s @ transaction_data_members e s
                in
                if signed then
                  (case tick (e_clock e) w of
                     (now, w') \<Rightarrow>
                       (Inr
                         (claims @
                          [(''client_id'', str (e_clientID e)),
                           (''expected_origins'', AnyJ (strings_json (S_ExpectedOrigins s))),
                           (''iss'', str (e_clientID e)),
                           (''aud'', str audWallet),
                           (''iat'', num (time_unix now)),
                           (''nbf'', num (time_unix now)),
                           (''exp'', num (time_unix (S_ExpiresAt s)))]), w'))
                else (Inr claims, w))))"

definition DCAPIRequest ::
    "('q, 'r) deps \<Rightarrow> engine \<Rightarrow> ('q, 'r) session option \<Rightarrow> world \<Rightarrow> (err + bytes) \<times> world" where
  "DCAPIRequest D e so w =
     (case so of
        None \<Rightarrow> (Inl (Sentinel ErrSessionInvalid), w)
      | Some s \<Rightarrow>
          if S_Flow s \<noteq> DCAPI then (Inl (failq ErrFlowMismatch []), w)
          else
            (case tick (e_clock e) w of
               (now, w1) \<Rightarrow>
                 if \<not> live_at now s then (Inl (Sentinel ErrSessionExpired), w1)
                 else
                   (case dcapiClaims D e s True w1 of
                      (Inl er, w2) \<Rightarrow> (Inl er, w2)
                    | (Inr claims, w2) \<Rightarrow>
                        (case marshal_claims D claims of
                           Inl er \<Rightarrow> (Inl (failw ErrConfig (Foreign er)), w2)
                         | Inr payload \<Rightarrow>
                             (case sign_request D e (json_print payload) w2 of
                                (Inl er, w3) \<Rightarrow> (Inl er, w3)
                              | (Inr tok, w3) \<Rightarrow>
                                  (Inr (json_print (json_map
                                     [(''protocol'', JStr dcapiProtocolSigned),
                                      (''data'', JObj [(''request'', JStr tok)])])), w3))))))"

definition DCAPIUnsignedRequest ::
    "('q, 'r) deps \<Rightarrow> engine \<Rightarrow> ('q, 'r) session option \<Rightarrow> world \<Rightarrow> (err + bytes) \<times> world" where
  "DCAPIUnsignedRequest D e so w =
     (case so of
        None \<Rightarrow> (Inl (Sentinel ErrSessionInvalid), w)
      | Some s \<Rightarrow>
          if S_Flow s \<noteq> DCAPI then (Inl (failq ErrFlowMismatch []), w)
          else
            (case dcapiClaims D e s False w of
               (Inl er, w1) \<Rightarrow> (Inl er, w1)
             | (Inr claims, w1) \<Rightarrow>
                 (case marshal_claims D claims of
                    Inl er \<Rightarrow> (Inl (Foreign er), w1)
                  | Inr data \<Rightarrow>
                      (Inr (json_print (json_map
                         [(''protocol'', JStr dcapiProtocolUnsigned), (''data'', data)])), w1))))"

section \<open>Members on the wire\<close>

lemma mapR_pairs:
  "mapR (\<lambda>(k, v). map_sum id (Pair k) (f v)) cs = Inr ms \<Longrightarrow>
     map fst ms = map fst cs \<and> (\<forall>k a. map_of cs k = Some a \<longrightarrow> (\<exists>v. f a = Inr v \<and> map_of ms k = Some v))"
proof (induction cs arbitrary: ms)
  case (Cons c cs)
  obtain k a where c: "c = (k, a)" by (cases c) auto
  from Cons.prems c obtain v ms' where "f a = Inr v" "ms = (k, v) # ms'"
      "mapR (\<lambda>(k, v). map_sum id (Pair k) (f v)) cs = Inr ms'"
    by (cases "f a") (auto simp: id_def split: sum.splits)
  with Cons.IH [of ms'] c show ?case unfolding id_def by auto
qed simp

text \<open>The claim set \<open>cs\<close> is marshalled as the object with the members \<open>ms\<close>.\<close>

definition on_wire :: "('q, 'r) deps \<Rightarrow> 'q claims \<Rightarrow> (string \<times> jvalue) list \<Rightarrow> bool" where
  "on_wire D cs ms \<longleftrightarrow>
     sorted_wrt (<) (map fst ms) \<and> set (map fst ms) = set (map fst cs)
     \<and> (\<forall>k a. map_of cs k = Some a \<longrightarrow> (\<exists>v. marshal_any D a = Inr v \<and> map_of ms k = Some v))"

lemma marshal_claims_on_wire:
  assumes "marshal_claims D cs = Inr v" and "distinct (map fst cs)"
  shows "\<exists>ms. v = JObj ms \<and> on_wire D cs ms"
proof -
  obtain ps where ps: "mapR (\<lambda>(k, v). map_sum id (Pair k) (marshal_any D v)) cs = Inr ps"
      and v: "v = json_map ps"
    using assms(1) by (auto simp: marshal_claims_def split: sum.splits)
  from mapR_pairs [OF ps] have keys: "map fst ps = map fst cs" by blast
  with assms(2) obtain ms where "v = JObj ms" "sorted_wrt (<) (map fst ms)" "set ms = set ps"
      "map_of ms = map_of ps"
    using json_map_members [of ps] v by metis
  moreover from \<open>set ms = set ps\<close> keys have "set (map fst ms) = set (map fst cs)"
    by (metis list.set_map)
  ultimately show ?thesis using mapR_pairs [OF ps] by (auto simp: on_wire_def)
qed

lemma on_wireD: "on_wire D cs ms \<Longrightarrow> map_of cs k = Some a \<Longrightarrow>
    \<exists>v. marshal_any D a = Inr v \<and> map_of ms k = Some v"
  by (simp add: on_wire_def)

lemma on_wire_J: "on_wire D cs ms \<Longrightarrow> map_of cs k = Some (AnyJ v) \<Longrightarrow> map_of ms k = Some v"
  using on_wireD by fastforce

lemma on_wire_Q: "on_wire D cs ms \<Longrightarrow> map_of cs k = Some (AnyQ q) \<Longrightarrow>
    \<exists>v. QueryJSON D q = Inr v \<and> map_of ms k = Some v"
  using on_wireD by fastforce

lemmas member_defs = memberRegistration_def memberVerifierInfo_def

section \<open>Request claims\<close>

lemma registration_claim_Inr:
  "registration_claim D s = Inr reg \<longleftrightarrow> S_Registration s \<noteq> ZeroRef D \<and> RefClaims D (S_Registration s) = Inr reg"
  by (auto simp: registration_claim_def isZeroRegistration_def split: sum.splits)

lemma requestClaims_Inr:
  assumes "requestClaims D e s w = (Inr cs, w')"
  obtains reg cm where "registration_claim D s = Inr reg" "clientMetadata D e s = Inr cm"
    "w' = w\<lparr>w_ticks := Suc (w_ticks w)\<rparr>"
    "cs = [(''iss'', str (e_clientID e)), (''aud'', str audWallet),
       (''iat'', num (time_unix (e_clock e (w_ticks w)))),
       (''nbf'', num (time_unix (e_clock e (w_ticks w)))),
       (''exp'', num (time_unix (S_ExpiresAt s))), (''client_id'', str (e_clientID e)),
       (''response_type'', str ''vp_token''), (''response_mode'', str ''direct_post.jwt''),
       (''response_uri'', str (S_ResponseURI s)), (''nonce'', str (S_Nonce s)),
       (''state'', str (S_State s)), (''dcql_query'', AnyQ (S_Query s)),
       (''client_metadata'', AnyJ cm), (memberRegistration, AnyJ reg)]
       @ verifier_info_members s @ transaction_data_members e s"
  using assms that
  by (auto simp: requestClaims_def tick_def split: sum.splits)

lemma optional_keys:
  "map fst (verifier_info_members s) = (if S_WRPRC s \<noteq> [] then [''verifier_info''] else [])"
  "map fst (transaction_data_members e s)
     = (if S_TransactionData s \<noteq> [] \<and> C_EnableTransactionData (e_cfg e) then [''transaction_data''] else [])"
  by (simp_all add: verifier_info_members_def transaction_data_members_def member_defs)

lemma request_keys_distinct: "requestClaims D e s w = (Inr cs, w') \<Longrightarrow> distinct (map fst cs)"
  by (erule requestClaims_Inr) (simp add: optional_keys member_defs)

lemma RequestObjectJWT_Inr:
  assumes "RequestObjectJWT D e so w = (Inr tok, so', w')"
  obtains s cs ms w1 where "so = Some s" "S_Flow s \<noteq> DCAPI" "live_at (e_clock e (w_ticks w)) s"
    "\<not> S_RequestObjectServed s" "so' = Some (s\<lparr>S_RequestObjectServed := True\<rparr>)"
    "requestClaims D e s (w\<lparr>w_ticks := Suc (w_ticks w)\<rparr>) = (Inr cs, w1)" "on_wire D cs ms"
    "SignJWS D (C_Keys (e_cfg e)) (C_SigningKeyID (e_cfg e))
       \<lparr>hdr_typ = typOAuthAuthzReq, hdr_x5c = C_WRPACChain (e_cfg e)\<rparr>
       (json_print (JObj ms)) (w_entropy w1) = Inr tok"
proof -
  from assms obtain s cs w1 v where 1: "so = Some s" "S_Flow s \<noteq> DCAPI"
      "live_at (e_clock e (w_ticks w)) s" "\<not> S_RequestObjectServed s"
      "so' = Some (s\<lparr>S_RequestObjectServed := True\<rparr>)"
      "requestClaims D e s (w\<lparr>w_ticks := Suc (w_ticks w)\<rparr>) = (Inr cs, w1)"
      "marshal_claims D cs = Inr v"
      "SignJWS D (C_Keys (e_cfg e)) (C_SigningKeyID (e_cfg e))
         \<lparr>hdr_typ = typOAuthAuthzReq, hdr_x5c = C_WRPACChain (e_cfg e)\<rparr>
         (json_print v) (w_entropy w1) = Inr tok"
    by (auto simp: RequestObjectJWT_def sign_request_def tick_def
        split: option.splits if_splits prod.splits sum.splits)
  obtain ms where "v = JObj ms" "on_wire D cs ms"
    using marshal_claims_on_wire [OF 1(7) request_keys_distinct [OF 1(6)]] by blast
  with 1 that show ?thesis by blast
qed

lemma RequestObjectJWT_Inl: "RequestObjectJWT D e so w = (Inl er, so', w') \<Longrightarrow> so' = so"
  by (auto simp: RequestObjectJWT_def split: option.splits if_splits prod.splits sum.splits)

lemma RequestObjectJWT_served:
  "S_Flow s \<noteq> DCAPI \<Longrightarrow> S_RequestObjectServed s \<Longrightarrow>
     \<exists>w'. RequestObjectJWT D e (Some s) w =
       (Inl (Sentinel (if live_at (e_clock e (w_ticks w)) s then ErrRequestURIConsumed
                       else ErrSessionExpired)), Some s, w')"
  by (auto simp: RequestObjectJWT_def tick_def split: prod.splits)

section \<open>The public half of the key\<close>

lemma ephemeralJWK_Inr:
  assumes "ephemeralJWK pub alg kid = Inr jwk"
  obtains point size where "pk_point pub = Inr point" "size = (pk_bits pub + 7) div 8"
    "length point = 1 + 2 * size"
    "jwk = json_map [(''kty'', JStr ''EC''), (''crv'', JStr (pk_curve pub)),
       (''x'', JStr (b64_encode (take size (drop 1 point)))),
       (''y'', JStr (b64_encode (drop (1 + size) point))),
       (''use'', JStr ''enc''), (''alg'', JStr alg), (''kid'', JStr kid)]"
  using assms that
  by (auto simp: ephemeralJWK_def Let_def split: sum.splits if_splits)

text \<open>
  Two situations that differ only in the private key: in the encoding that the session stores, and in what the
  parser of stored keys makes of it. Both keys are EC keys, and they agree on the public half.
\<close>

definition same_public :: "('q, 'r) deps \<Rightarrow> (bytes \<Rightarrow> string + private_key) \<Rightarrow> bytes \<Rightarrow> bytes \<Rightarrow> bool" where
  "same_public D p der der' \<longleftrightarrow>
     (\<exists>k k'. ParsePKCS8 D der = Inr (PrivEC k) \<and> p der' = Inr (PrivEC k') \<and> sk_public k = sk_public k')"

abbreviation with_key :: "bytes \<Rightarrow> ('q, 'r) session \<Rightarrow> ('q, 'r) session" where
  "with_key der s \<equiv> s\<lparr>S_EphemeralKeyPKCS8 := der\<rparr>"

lemma clientMetadata_public:
  assumes "same_public D p (S_EphemeralKeyPKCS8 s) der"
  shows "clientMetadata (D\<lparr>ParsePKCS8 := p\<rparr>) e (with_key der s) = clientMetadata D e s"
  using assms by (auto simp: same_public_def clientMetadata_def ephemeralPrivateKey_def Let_def
      split: sum.split)

lemma marshal_any_keys [simp]: "marshal_any (D\<lparr>ParsePKCS8 := p\<rparr>) = marshal_any D"
proof
  show "marshal_any (D\<lparr>ParsePKCS8 := p\<rparr>) a = marshal_any D a" for a by (cases a) simp_all
qed

lemma marshal_claims_keys [simp]: "marshal_claims (D\<lparr>ParsePKCS8 := p\<rparr>) cs = marshal_claims D cs"
  by (simp add: marshal_claims_def)

lemma sign_request_keys [simp]: "sign_request (D\<lparr>ParsePKCS8 := p\<rparr>) e = sign_request D e"
  by (simp add: sign_request_def fun_eq_iff)

lemma members_keys [simp]:
  "registration_claim (D\<lparr>ParsePKCS8 := p\<rparr>) (with_key der s) = registration_claim D s"
  "verifier_info_members (with_key der s) = verifier_info_members s"
  "transaction_data_members e (with_key der s) = transaction_data_members e s"
  "live_at now (with_key der s) = live_at now s"
  by (simp_all add: registration_claim_def isZeroRegistration_def verifier_info_members_def
      transaction_data_members_def live_at_def)

lemma requestClaims_public:
  "same_public D p (S_EphemeralKeyPKCS8 s) der \<Longrightarrow>
     requestClaims (D\<lparr>ParsePKCS8 := p\<rparr>) e (with_key der s) w = requestClaims D e s w"
  by (simp add: requestClaims_def clientMetadata_public split: sum.split)

lemma dcapiClaims_public:
  "same_public D p (S_EphemeralKeyPKCS8 s) der \<Longrightarrow>
     dcapiClaims (D\<lparr>ParsePKCS8 := p\<rparr>) e (with_key der s) sg w = dcapiClaims D e s sg w"
  by (simp add: dcapiClaims_def clientMetadata_public Let_def split: sum.split prod.split)

section \<open>When a request is made\<close>

text \<open>Nothing outside the library stands in the way of a request for this session.\<close>

definition requestable :: "('q, 'r) deps \<Rightarrow> engine \<Rightarrow> ('q, 'r) session \<Rightarrow> bool" where
  "requestable D e s \<longleftrightarrow>
     S_Registration s \<noteq> ZeroRef D \<and> (\<exists>reg. RefClaims D (S_Registration s) = Inr reg)
     \<and> (\<exists>priv point. ephemeralPrivateKey D s = Inr priv \<and> pk_point (sk_public priv) = Inr point
          \<and> length point = 1 + 2 * ((pk_bits (sk_public priv) + 7) div 8))
     \<and> (\<exists>q. QueryJSON D (S_Query s) = Inr q)
     \<and> (\<forall>hdr payload n. \<exists>tok.
          SignJWS D (C_Keys (e_cfg e)) (C_SigningKeyID (e_cfg e)) hdr payload n = Inr tok)"

lemma requestable_metadata: "requestable D e s \<Longrightarrow> \<exists>cm. clientMetadata D e s = Inr cm"
  by (auto simp: requestable_def clientMetadata_def ephemeralJWK_def Let_def)

lemma mapR_total:
  "(\<And>k a. (k, a) \<in> set cs \<Longrightarrow> \<exists>v. f a = Inr v) \<Longrightarrow>
     \<exists>ps. mapR (\<lambda>(k, v). map_sum id (Pair k) (f v)) cs = Inr ps"
proof (induction cs)
  case (Cons c cs)
  obtain k a where c: "c = (k, a)" by (cases c) auto
  with Cons.prems obtain v where "f a = Inr v" by auto
  moreover have "\<exists>ps. mapR (\<lambda>(k, v). map_sum id (Pair k) (f v)) cs = Inr ps"
    by (rule Cons.IH) (rule Cons.prems, rule list.set_intros(2))
  ultimately show ?case unfolding id_def by (auto simp: c)
qed simp

lemma marshal_claims_total:
  assumes "QueryJSON D q = Inr v" and "\<And>k q'. (k, AnyQ q') \<in> set cs \<Longrightarrow> q' = q"
  shows "\<exists>v. marshal_claims D cs = Inr v"
proof -
  have "\<exists>v. marshal_any D a = Inr v" if "(k, a) \<in> set cs" for k a
    using assms that by (cases a) auto
  then have "\<exists>ps. mapR (\<lambda>(k, v). map_sum id (Pair k) (marshal_any D v)) cs = Inr ps"
    by (rule mapR_total)
  then show ?thesis by (auto simp: marshal_claims_def)
qed

lemma claims_query:
  "requestClaims D e s w = (Inr cs, w') \<Longrightarrow> (k, AnyQ q) \<in> set cs \<Longrightarrow> q = S_Query s"
  "dcapiClaims D e s sg w = (Inr cs, w') \<Longrightarrow> (k, AnyQ q) \<in> set cs \<Longrightarrow> q = S_Query s"
  by (auto simp: requestClaims_def dcapiClaims_def Let_def verifier_info_members_def
      transaction_data_members_def split: sum.splits prod.splits if_splits)

text \<open>The guards of the three requests.\<close>

lemma RequestObjectJWT_ok:
  assumes "requestable D e s" and "S_Flow s \<noteq> DCAPI" and "live_at (e_clock e (w_ticks w)) s"
    and "\<not> S_RequestObjectServed s"
  shows "\<exists>tok w'. RequestObjectJWT D e (Some s) w
    = (Inr tok, Some (s\<lparr>S_RequestObjectServed := True\<rparr>), w')"
proof -
  define w1 where "w1 = w\<lparr>w_ticks := Suc (w_ticks w)\<rparr>"
  obtain cm where "clientMetadata D e s = Inr cm" using requestable_metadata [OF assms(1)] ..
  with assms(1) obtain cs w2 where cs: "requestClaims D e s w1 = (Inr cs, w2)"
    by (auto simp: requestClaims_def tick_def registration_claim_Inr [THEN iffD2] requestable_def)
  obtain q where q: "QueryJSON D (S_Query s) = Inr q" using assms(1) by (auto simp: requestable_def)
  have "\<exists>v. marshal_claims D cs = Inr v"
    by (rule marshal_claims_total [OF q]) (rule claims_query(1) [OF cs])
  then obtain v where "marshal_claims D cs = Inr v" ..
  moreover obtain tok where "SignJWS D (C_Keys (e_cfg e)) (C_SigningKeyID (e_cfg e))
       \<lparr>hdr_typ = typOAuthAuthzReq, hdr_x5c = C_WRPACChain (e_cfg e)\<rparr>
       (json_print v) (w_entropy w2) = Inr tok"
    using assms(1) unfolding requestable_def by blast
  ultimately show ?thesis using assms cs
    by (simp add: RequestObjectJWT_def tick_def sign_request_def flip: w1_def)
qed

lemma DCAPIRequest_ok:
  assumes "requestable D e s" and "S_Flow s = DCAPI" and "live_at (e_clock e (w_ticks w)) s"
  shows "\<exists>member w'. DCAPIRequest D e (Some s) w = (Inr member, w')"
proof -
  define w1 where "w1 = w\<lparr>w_ticks := Suc (w_ticks w)\<rparr>"
  obtain cm where "clientMetadata D e s = Inr cm" using requestable_metadata [OF assms(1)] ..
  with assms(1) obtain cs w2 where cs: "dcapiClaims D e s True w1 = (Inr cs, w2)"
    by (auto simp: dcapiClaims_def tick_def Let_def registration_claim_Inr [THEN iffD2] requestable_def)
  obtain q where q: "QueryJSON D (S_Query s) = Inr q" using assms(1) by (auto simp: requestable_def)
  have "\<exists>v. marshal_claims D cs = Inr v"
    by (rule marshal_claims_total [OF q]) (rule claims_query(2) [OF cs])
  then obtain v where "marshal_claims D cs = Inr v" ..
  moreover obtain tok where "SignJWS D (C_Keys (e_cfg e)) (C_SigningKeyID (e_cfg e))
       \<lparr>hdr_typ = typOAuthAuthzReq, hdr_x5c = C_WRPACChain (e_cfg e)\<rparr>
       (json_print v) (w_entropy w2) = Inr tok"
    using assms(1) unfolding requestable_def by blast
  ultimately show ?thesis using assms cs
    by (simp add: DCAPIRequest_def tick_def sign_request_def flip: w1_def)
qed

section \<open>Sample requests\<close>

definition sample_unserved :: "(credential list, string) session" where
  "sample_unserved = sample_session\<lparr>S_RequestObjectServed := False, S_Consumed := False,
     S_TransactionData := [''{}'']\<rparr>"

definition sample_dcapi :: "(credential list, string) session" where
  "sample_dcapi = sample_session\<lparr>S_Flow := ''dcapi'', S_ResponseURI := [], S_ReturnURI := [],
     S_ExpectedOrigins := [''https://shop.example'']\<rparr>"

lemmas sample_defs = sample_session_def sample_engine_def sample_cfg_def sample_deps_def
  sample_key_def sample_public_def sample_world_def make_engine_def Let_def

lemma sample_requestable:
  "requestable sample_deps sample_engine sample_unserved"
  "requestable sample_deps sample_engine sample_dcapi"
  by (simp_all add: requestable_def sample_unserved_def sample_dcapi_def ephemeralPrivateKey_def
      sample_defs)

lemma sample_request:
  obtains tok so w where
    "RequestObjectJWT sample_deps sample_engine (Some sample_unserved) sample_world = (Inr tok, so, w)"
  using RequestObjectJWT_ok [OF sample_requestable(1), of sample_world] that
  by (auto simp: sample_unserved_def sample_defs flow_defs live_at_def)

lemma sample_dcapi_request:
  obtains member w where
    "DCAPIRequest sample_deps sample_engine (Some sample_dcapi) sample_world = (Inr member, w)"
  using DCAPIRequest_ok [OF sample_requestable(2), of sample_world] that
  by (auto simp: sample_dcapi_def sample_defs flow_defs live_at_def)

section \<open>Properties\<close>

text \<open>
  C8: The request URI is single-use. A successful call found the session unserved and unexpired, and
  leaves it served; every later call on what it left behind fails, at any time, with
  \<open>ErrRequestURIConsumed\<close> or, past the expiry, \<open>ErrSessionExpired\<close>. A failed call leaves the session
  as it was, so that the wallet can fetch again.
\<close>

theorem request_object_single_use:
  "(case RequestObjectJWT D e so w of
      (Inl er, so', w') \<Rightarrow> so' = so
    | (Inr tok, so', w') \<Rightarrow>
        (\<exists>s. so = Some s \<and> \<not> S_RequestObjectServed s \<and> e_clock e (w_ticks w) < S_ExpiresAt s
           \<and> so' = Some (s\<lparr>S_RequestObjectServed := True\<rparr>))
        \<and> (\<forall>w2. \<exists>w3. RequestObjectJWT D e so' w2 =
             (Inl (Sentinel (if e_clock e (w_ticks w2) < S_ExpiresAt (the so')
                             then ErrRequestURIConsumed else ErrSessionExpired)), so', w3)))"
proof -
  obtain r so' w' where call: "RequestObjectJWT D e so w = (r, so', w')"
    by (cases "RequestObjectJWT D e so w") auto
  show ?thesis
  proof (cases r)
    case (Inl er)
    with call RequestObjectJWT_Inl [of D e so w er so' w'] show ?thesis by simp
  next
    case (Inr tok)
    with call obtain s where s: "so = Some s" "S_Flow s \<noteq> DCAPI" "live_at (e_clock e (w_ticks w)) s"
        "\<not> S_RequestObjectServed s" "so' = Some (s\<lparr>S_RequestObjectServed := True\<rparr>)"
      by (auto elim: RequestObjectJWT_Inr)
    then have "\<exists>w3. RequestObjectJWT D e so' w2 =
        (Inl (Sentinel (if e_clock e (w_ticks w2) < S_ExpiresAt (the so')
                        then ErrRequestURIConsumed else ErrSessionExpired)), so', w3)" for w2
      using RequestObjectJWT_served [of "s\<lparr>S_RequestObjectServed := True\<rparr>" D e w2]
      by (simp add: live_at_def)
    with call Inr s show ?thesis by (simp add: live_at_def)
  qed
qed

text \<open>The members every request object has, and those it has besides.\<close>

definition request_members :: "engine \<Rightarrow> ('q, 'r) session \<Rightarrow> string set" where
  "request_members e s =
     {''iss'', ''aud'', ''iat'', ''nbf'', ''exp'', ''client_id'', ''response_type'', ''response_mode'',
      ''response_uri'', ''nonce'', ''state'', ''dcql_query'', ''client_metadata'',
      ''verifier_registration''}
     \<union> (if S_WRPRC s \<noteq> [] then {''verifier_info''} else {})
     \<union> (if S_TransactionData s \<noteq> [] \<and> C_EnableTransactionData (e_cfg e) then {''transaction_data''}
        else {})"

text \<open>The members of a request as they are marshalled.\<close>

lemma requestClaims_parts:
  assumes "requestClaims D e s w = (Inr cs, w')" and "on_wire D cs ms"
  shows "set (map fst ms) = request_members e s"
    and "map_of ms ''client_id'' = Some (JStr (e_clientID e))"
    and "map_of ms ''response_uri'' = Some (JStr (S_ResponseURI s))"
    and "map_of ms ''nonce'' = Some (JStr (S_Nonce s))" and "map_of ms ''state'' = Some (JStr (S_State s))"
    and "\<exists>q. QueryJSON D (S_Query s) = Inr q \<and> map_of ms ''dcql_query'' = Some q"
    and "\<exists>cm. clientMetadata D e s = Inr cm \<and> map_of ms ''client_metadata'' = Some cm"
    and "''transaction_data'' \<in> request_members e s
      \<Longrightarrow> map_of ms ''transaction_data'' = Some (transactionDataStrings (S_TransactionData s))"
    and "map_of ms ''iss'' = Some (JStr (e_clientID e))"
    and "map_of ms ''response_type'' = Some (JStr ''vp_token'')"
    and "map_of ms ''response_mode'' = Some (JStr ''direct_post.jwt'')"
    and "map_of ms ''exp'' = Some (JNum (int_dec (S_ExpiresAt s div 1000000000)))"
    and "\<exists>reg. registration_claim D s = Inr reg \<and> map_of ms ''verifier_registration'' = Some reg"
proof -
  from assms(1) obtain reg cm where reg: "registration_claim D s = Inr reg" and cm: "clientMetadata D e s = Inr cm"
    and cs: "cs = [(''iss'', str (e_clientID e)), (''aud'', str audWallet),
       (''iat'', num (time_unix (e_clock e (w_ticks w)))),
       (''nbf'', num (time_unix (e_clock e (w_ticks w)))),
       (''exp'', num (time_unix (S_ExpiresAt s))), (''client_id'', str (e_clientID e)),
       (''response_type'', str ''vp_token''), (''response_mode'', str ''direct_post.jwt''),
       (''response_uri'', str (S_ResponseURI s)), (''nonce'', str (S_Nonce s)),
       (''state'', str (S_State s)), (''dcql_query'', AnyQ (S_Query s)),
       (''client_metadata'', AnyJ cm), (memberRegistration, AnyJ reg)]
       @ verifier_info_members s @ transaction_data_members e s"
    by (rule requestClaims_Inr)
  note jm = on_wire_J [OF assms(2)]
  show "set (map fst ms) = request_members e s"
    using assms(2) by (auto simp: on_wire_def cs request_members_def optional_keys member_defs
        verifier_info_members_def transaction_data_members_def)
  show "map_of ms ''client_id'' = Some (JStr (e_clientID e))"
    "map_of ms ''response_uri'' = Some (JStr (S_ResponseURI s))"
    "map_of ms ''nonce'' = Some (JStr (S_Nonce s))" "map_of ms ''state'' = Some (JStr (S_State s))"
    "map_of ms ''iss'' = Some (JStr (e_clientID e))" "map_of ms ''response_type'' = Some (JStr ''vp_token'')"
    "map_of ms ''response_mode'' = Some (JStr ''direct_post.jwt'')"
    "map_of ms ''exp'' = Some (JNum (int_dec (S_ExpiresAt s div 1000000000)))"
    by (rule jm; simp add: cs time_unix_def)+
  have "map_of ms ''verifier_registration'' = Some reg" by (rule jm) (simp add: cs member_defs)
  with reg show "\<exists>reg. registration_claim D s = Inr reg \<and> map_of ms ''verifier_registration'' = Some reg" by blast
  show "\<exists>q. QueryJSON D (S_Query s) = Inr q \<and> map_of ms ''dcql_query'' = Some q"
    by (rule on_wire_Q [OF assms(2)]) (simp add: cs)
  have "map_of ms ''client_metadata'' = Some cm" by (rule jm) (simp add: cs)
  with cm show "\<exists>cm. clientMetadata D e s = Inr cm \<and> map_of ms ''client_metadata'' = Some cm" by blast
  show "map_of ms ''transaction_data'' = Some (transactionDataStrings (S_TransactionData s))"
    if "''transaction_data'' \<in> request_members e s"
    using that by (intro jm) (auto simp: cs member_defs request_members_def verifier_info_members_def
        transaction_data_members_def split: if_splits)
qed

text \<open>
  C9: What is signed. The payload of a request object is one JSON object with exactly the members of
  \<open>request_members\<close>, in order and without repetition (so never a \<open>redirect_uri\<close>, always the
  registration, and transaction data only when the engine enables it); its members are the identity of
  the engine, the secrets and the response endpoint of the session, the session's query, and the
  registration data; it is signed under the configured key with the certificate chain.
\<close>

theorem request_object_members:
  assumes "RequestObjectJWT D e (Some s) w = (Inr tok, so', w')"
  shows "\<exists>ms n q reg cm.
      SignJWS D (C_Keys (e_cfg e)) (C_SigningKeyID (e_cfg e))
        \<lparr>hdr_typ = ''oauth-authz-req+jwt'', hdr_x5c = C_WRPACChain (e_cfg e)\<rparr>
        (json_print (JObj ms)) n = Inr tok
    \<and> sorted_wrt (<) (map fst ms) \<and> set (map fst ms) = request_members e s
    \<and> map_of ms ''client_id'' = Some (JStr (e_clientID e))
    \<and> map_of ms ''iss'' = Some (JStr (e_clientID e))
    \<and> map_of ms ''response_type'' = Some (JStr ''vp_token'')
    \<and> map_of ms ''response_mode'' = Some (JStr ''direct_post.jwt'')
    \<and> map_of ms ''response_uri'' = Some (JStr (S_ResponseURI s))
    \<and> map_of ms ''nonce'' = Some (JStr (S_Nonce s)) \<and> map_of ms ''state'' = Some (JStr (S_State s))
    \<and> map_of ms ''exp'' = Some (JNum (int_dec (S_ExpiresAt s div 1000000000)))
    \<and> QueryJSON D (S_Query s) = Inr q \<and> map_of ms ''dcql_query'' = Some q
    \<and> S_Registration s \<noteq> ZeroRef D \<and> RefClaims D (S_Registration s) = Inr reg
    \<and> map_of ms ''verifier_registration'' = Some reg
    \<and> clientMetadata D e s = Inr cm \<and> map_of ms ''client_metadata'' = Some cm
    \<and> (''transaction_data'' \<in> request_members e s
         \<longrightarrow> map_of ms ''transaction_data'' = Some (transactionDataStrings (S_TransactionData s)))"
proof -
  obtain cs ms w1 where
      rc: "requestClaims D e s (w\<lparr>w_ticks := Suc (w_ticks w)\<rparr>) = (Inr cs, w1)"
    and wire: "on_wire D cs ms"
    and sig: "SignJWS D (C_Keys (e_cfg e)) (C_SigningKeyID (e_cfg e))
       \<lparr>hdr_typ = typOAuthAuthzReq, hdr_x5c = C_WRPACChain (e_cfg e)\<rparr>
       (json_print (JObj ms)) (w_entropy w1) = Inr tok"
    using assms by (auto elim: RequestObjectJWT_Inr)
  note parts = requestClaims_parts [OF rc wire]
  obtain q cm reg where "QueryJSON D (S_Query s) = Inr q" "map_of ms ''dcql_query'' = Some q"
      "clientMetadata D e s = Inr cm" "map_of ms ''client_metadata'' = Some cm"
      "registration_claim D s = Inr reg" "map_of ms ''verifier_registration'' = Some reg"
    using parts(6,7,13) by blast
  moreover have "sorted_wrt (<) (map fst ms)" using wire by (simp add: on_wire_def)
  ultimately show ?thesis
    using sig parts(1-5,8-12)
    by (intro exI [of _ ms] exI [of _ "w_entropy w1"] exI [of _ q] exI [of _ reg] exI [of _ cm])
      (simp add: registration_claim_Inr typOAuthAuthzReq_def)
qed

theorem request_object_members_witness:
  "\<exists>ms n tok.
      SignJWS sample_deps (C_Keys (e_cfg sample_engine)) ''wrpac''
        \<lparr>hdr_typ = ''oauth-authz-req+jwt'', hdr_x5c = [Some sample_leaf]\<rparr>
        (json_print (JObj ms)) n = Inr tok
    \<and> map_of ms ''transaction_data'' = Some (JArr [JStr ''e30''])"
proof -
  obtain tok so w where
    "RequestObjectJWT sample_deps sample_engine (Some sample_unserved) sample_world = (Inr tok, so, w)"
    by (rule sample_request)
  from request_object_members [OF this] have "\<exists>ms n.
      SignJWS sample_deps (C_Keys (e_cfg sample_engine)) ''wrpac''
        \<lparr>hdr_typ = ''oauth-authz-req+jwt'', hdr_x5c = [Some sample_leaf]\<rparr>
        (json_print (JObj ms)) n = Inr tok
    \<and> map_of ms ''transaction_data'' = Some (transactionDataStrings [''{}''])"
    by (auto simp: request_members_def sample_unserved_def sample_session_def sample_engine_def
        sample_cfg_def)
  moreover have "transactionDataStrings [''{}''] = JArr [JStr ''e30'']" by code_simp
  ultimately show ?thesis by auto
qed

text \<open>
  C36: Requests are made when they are due. If the registration data, the stored key, the query and the
  signer are in order, an unexpired and unserved session of a request-URI flow gets its request object,
  and an unexpired DC API session its signed request.
\<close>

theorem requests_are_made:
  assumes "requestable D e s" and "e_clock e (w_ticks w) < S_ExpiresAt s"
  shows "if S_Flow s = DCAPI then \<exists>member w'. DCAPIRequest D e (Some s) w = (Inr member, w')
    else S_RequestObjectServed s
      \<or> (\<exists>tok w'. RequestObjectJWT D e (Some s) w
            = (Inr tok, Some (s\<lparr>S_RequestObjectServed := True\<rparr>), w'))"
  using assms RequestObjectJWT_ok DCAPIRequest_ok unfolding live_at_def by auto

theorem requests_are_made_witness:
  "\<exists>tok w'. RequestObjectJWT sample_deps sample_engine (Some sample_unserved) sample_world
     = (Inr tok, Some (sample_unserved\<lparr>S_RequestObjectServed := True\<rparr>), w')"
  using requests_are_made [OF sample_requestable(1), of sample_world]
  by (simp add: sample_unserved_def sample_defs flow_defs)

text \<open>
  C28: Requests do not depend on the private key. Replace the session's stored key by any other encoding of
  any other private key with the same public half, even for another parser of keys: a request object and
  both Digital Credentials requests come out byte for byte the same, signature included, or fail with the
  same error, and the session they leave behind is the same up to the stored key.
\<close>

theorem requests_ignore_private_key:
  assumes "same_public D p (S_EphemeralKeyPKCS8 s) der"
  shows "RequestObjectJWT (D\<lparr>ParsePKCS8 := p\<rparr>) e (Some (with_key der s)) w
      = (case RequestObjectJWT D e (Some s) w of (r, so, w') \<Rightarrow> (r, map_option (with_key der) so, w'))
    \<and> DCAPIRequest (D\<lparr>ParsePKCS8 := p\<rparr>) e (Some (with_key der s)) w = DCAPIRequest D e (Some s) w
    \<and> DCAPIUnsignedRequest (D\<lparr>ParsePKCS8 := p\<rparr>) e (Some (with_key der s)) w
      = DCAPIUnsignedRequest D e (Some s) w"
  using requestClaims_public [OF assms] dcapiClaims_public [OF assms]
  by (auto simp: RequestObjectJWT_def DCAPIRequest_def DCAPIUnsignedRequest_def
      split: prod.split sum.split)

theorem requests_ignore_private_key_witness:
  "fst (RequestObjectJWT
     (sample_deps\<lparr>ParsePKCS8 := \<lambda>b. Inr (PrivEC \<lparr>sk_secret = ''x'', sk_public = sample_public\<rparr>)\<rparr>)
     sample_engine (Some (with_key ''another key'' sample_unserved)) sample_world)
   = fst (RequestObjectJWT sample_deps sample_engine (Some sample_unserved) sample_world)"
proof -
  let ?p = "\<lambda>b. Inr (PrivEC \<lparr>sk_secret = ''x'', sk_public = sample_public\<rparr>)"
  have "same_public sample_deps ?p (S_EphemeralKeyPKCS8 sample_unserved) ''another key''"
    by (simp add: same_public_def sample_deps_def sample_unserved_def sample_session_def sample_key_def)
  from requests_ignore_private_key [OF this, THEN conjunct1] show ?thesis by (simp split: prod.split)
qed

text \<open>The members of the JWK of a key, and the two halves of its point.\<close>

lemma ephemeralJWK_members:
  assumes "ephemeralJWK pub alg kid = Inr j"
  obtains jwk h x y where "j = JObj jwk" "pk_point pub = Inr (h # x @ y)"
    "length x = (pk_bits pub + 7) div 8" "length y = length x"
    "set (map fst jwk) = {''kty'', ''crv'', ''x'', ''y'', ''use'', ''alg'', ''kid''}"
    "map_of jwk ''kid'' = Some (JStr kid)" "map_of jwk ''crv'' = Some (JStr (pk_curve pub))"
    "map_of jwk ''x'' = Some (JStr (b64_encode x))" "map_of jwk ''y'' = Some (JStr (b64_encode y))"
proof -
  from assms obtain point n where pt: "pk_point pub = Inr point"
    and n: "n = (pk_bits pub + 7) div 8" and len: "length point = 1 + 2 * n"
    and jdef: "j = json_map [(''kty'', JStr ''EC''), (''crv'', JStr (pk_curve pub)),
       (''x'', JStr (b64_encode (take n (drop 1 point)))),
       (''y'', JStr (b64_encode (drop (1 + n) point))),
       (''use'', JStr ''enc''), (''alg'', JStr alg), (''kid'', JStr kid)]" (is "_ = json_map ?L")
    by (rule ephemeralJWK_Inr)
  obtain h r where hr: "point = h # r" using len by (cases point) auto
  have "distinct (map fst ?L)" by simp
  then obtain jwk where jwk: "j = JObj jwk" "set jwk = set ?L" "map_of jwk = map_of ?L"
    unfolding jdef by (rule json_map_members)
  show ?thesis
  proof (rule that [of jwk h "take n r" "drop n r"])
    show "set (map fst jwk) = {''kty'', ''crv'', ''x'', ''y'', ''use'', ''alg'', ''kid''}"
      by (simp only: list.set_map jwk(2)) simp
    show "map_of jwk ''kid'' = Some (JStr kid)" "map_of jwk ''crv'' = Some (JStr (pk_curve pub))"
      "map_of jwk ''x'' = Some (JStr (b64_encode (take n r)))"
      "map_of jwk ''y'' = Some (JStr (b64_encode (drop n r)))"
      by (simp_all only: jwk(3)) (simp_all add: hr)
  qed (use jwk(1) pt hr n len in simp_all)
qed

text \<open>
  C29: The advertised encryption key is the session's own. The client metadata carries one JWK; its kid is
  the session id, and its coordinates decode to two halves of the curve's byte size that make up the
  uncompressed point of the session's public key.
\<close>

theorem advertised_key:
  assumes "clientMetadata D e s = Inr cm"
  shows "\<exists>priv h x y xs ys ms jwk.
      ephemeralPrivateKey D s = Inr priv \<and> pk_point (sk_public priv) = Inr (h # x @ y)
    \<and> length x = (pk_bits (sk_public priv) + 7) div 8 \<and> length y = length x
    \<and> cm = JObj ms \<and> map_of ms ''jwks'' = Some (JObj [(''keys'', JArr [JObj jwk])])
    \<and> set (map fst jwk) = {''kty'', ''crv'', ''x'', ''y'', ''use'', ''alg'', ''kid''}
    \<and> map_of jwk ''kid'' = Some (JStr (S_ID s))
    \<and> map_of jwk ''crv'' = Some (JStr (pk_curve (sk_public priv)))
    \<and> map_of jwk ''x'' = Some (JStr xs) \<and> b64_decode xs = Some x
    \<and> map_of jwk ''y'' = Some (JStr ys) \<and> b64_decode ys = Some y"
proof -
  obtain priv j where priv: "ephemeralPrivateKey D s = Inr priv"
    and j: "ephemeralJWK (sk_public priv) (re_Alg (C_ResponseEncryption (e_cfg e))) (S_ID s) = Inr j"
    and cm: "\<exists>a b. cm = json_map [(''jwks'', JObj [(''keys'', JArr [j])]),
       (''encrypted_response_enc_values_supported'', a), (''vp_formats_supported'', b)]"
    using assms by (auto simp: clientMetadata_def Let_def split: sum.splits)
  from cm obtain a b where cm': "cm = json_map [(''jwks'', JObj [(''keys'', JArr [j])]),
       (''encrypted_response_enc_values_supported'', a), (''vp_formats_supported'', b)]"
       (is "_ = json_map ?M")
    by blast
  have "distinct (map fst ?M)" by simp
  then obtain ms where ms: "cm = JObj ms" "map_of ms = map_of ?M"
    unfolding cm' by (rule json_map_members)
  from j show ?thesis
  proof (rule ephemeralJWK_members)
    fix jwk h x y
    assume jwk: "j = JObj jwk" "pk_point (sk_public priv) = Inr (h # x @ y)"
      "length x = (pk_bits (sk_public priv) + 7) div 8" "length y = length x"
      "set (map fst jwk) = {''kty'', ''crv'', ''x'', ''y'', ''use'', ''alg'', ''kid''}"
      "map_of jwk ''kid'' = Some (JStr (S_ID s))" "map_of jwk ''crv'' = Some (JStr (pk_curve (sk_public priv)))"
      "map_of jwk ''x'' = Some (JStr (b64_encode x))" "map_of jwk ''y'' = Some (JStr (b64_encode y))"
    have "map_of ms ''jwks'' = Some (JObj [(''keys'', JArr [JObj jwk])])"
      by (simp only: ms(2)) (simp add: jwk(1))
    with priv ms(1) jwk(2-) b64_round_trip show ?thesis by blast
  qed
qed

theorem advertised_key_witness:
  "\<exists>cm. clientMetadata sample_deps sample_engine sample_session = Inr cm
    \<and> (\<exists>ms jwk. cm = JObj ms \<and> map_of ms ''jwks'' = Some (JObj [(''keys'', JArr [JObj jwk])])
         \<and> map_of jwk ''kid'' = Some (JStr ''sid''))"
proof -
  have "\<exists>cm. clientMetadata sample_deps sample_engine sample_session = Inr cm"
    by (simp add: clientMetadata_def ephemeralPrivateKey_def ephemeralJWK_def Let_def sample_session_def
        sample_deps_def sample_key_def sample_public_def)
  then obtain cm where "clientMetadata sample_deps sample_engine sample_session = Inr cm" ..
  with advertised_key [OF this] show ?thesis by (fastforce simp: sample_session_def)
qed

section \<open>Digital Credentials API requests\<close>

definition dcapi_members_of :: "engine \<Rightarrow> ('q, 'r) session \<Rightarrow> string set" where
  "dcapi_members_of e s = set
     ([''response_type'', ''response_mode'', ''nonce'', ''dcql_query'', ''client_metadata'',
       ''verifier_registration'']
      @ (if S_WRPRC s \<noteq> [] then [''verifier_info''] else [])
      @ (if S_TransactionData s \<noteq> [] \<and> C_EnableTransactionData (e_cfg e) then [''transaction_data'']
         else []))"

definition signed_only :: "string set" where
  "signed_only = set [''client_id'', ''expected_origins'', ''iss'', ''aud'', ''iat'', ''nbf'', ''exp'']"

lemma dcapiClaims_Inr:
  assumes "dcapiClaims D e s sg w = (Inr cs, w')"
  obtains reg cm now where "registration_claim D s = Inr reg" "clientMetadata D e s = Inr cm"
    "cs = [(''response_type'', str ''vp_token''), (''response_mode'', str ''dc_api.jwt''),
       (''nonce'', str (S_Nonce s)), (''dcql_query'', AnyQ (S_Query s)),
       (''client_metadata'', AnyJ cm), (memberRegistration, AnyJ reg)]
      @ verifier_info_members s @ transaction_data_members e s
      @ (if sg then [(''client_id'', str (e_clientID e)),
           (''expected_origins'', AnyJ (strings_json (S_ExpectedOrigins s))),
           (''iss'', str (e_clientID e)), (''aud'', str audWallet),
           (''iat'', num (time_unix now)), (''nbf'', num (time_unix now)),
           (''exp'', num (time_unix (S_ExpiresAt s)))] else [])"
  using assms that
  by (auto simp: dcapiClaims_def tick_def Let_def split: sum.splits if_splits)

lemma dcapi_keys:
  assumes "dcapiClaims D e s sg w = (Inr cs, w')"
  shows "distinct (map fst cs)"
    and "set (map fst cs) = dcapi_members_of e s \<union> (if sg then signed_only else {})"
proof -
  have keys: "map fst cs = ([''response_type'', ''response_mode'', ''nonce'', ''dcql_query'', ''client_metadata'',
       ''verifier_registration'']
      @ (if S_WRPRC s \<noteq> [] then [''verifier_info''] else [])
      @ (if S_TransactionData s \<noteq> [] \<and> C_EnableTransactionData (e_cfg e) then [''transaction_data'']
         else []))
      @ (if sg then [''client_id'', ''expected_origins'', ''iss'', ''aud'', ''iat'', ''nbf'', ''exp'']
         else [])"
    by (rule dcapiClaims_Inr [OF assms]) (simp add: optional_keys member_defs)
  show "distinct (map fst cs)" unfolding keys by simp
  show "set (map fst cs) = dcapi_members_of e s \<union> (if sg then signed_only else {})"
    unfolding keys dcapi_members_of_def signed_only_def set_append by (cases sg) simp_all
qed

text \<open>What both variants say: the members of the session, under their names.\<close>

definition says_session ::
    "('q, 'r) deps \<Rightarrow> ('q, 'r) session \<Rightarrow> (string \<times> jvalue) list \<Rightarrow> bool" where
  "says_session D s ms \<longleftrightarrow>
     map_of ms ''response_mode'' = Some (JStr ''dc_api.jwt'')
     \<and> map_of ms ''nonce'' = Some (JStr (S_Nonce s))
     \<and> (\<exists>q. QueryJSON D (S_Query s) = Inr q \<and> map_of ms ''dcql_query'' = Some q)
     \<and> S_Registration s \<noteq> ZeroRef D
     \<and> (\<exists>reg. RefClaims D (S_Registration s) = Inr reg \<and> map_of ms ''verifier_registration'' = Some reg)"

lemma dcapi_on_wire:
  assumes "dcapiClaims D e s sg w = (Inr cs, w')" and "on_wire D cs ms"
  shows "says_session D s ms"
    and "sg \<Longrightarrow> map_of ms ''client_id'' = Some (JStr (e_clientID e))
      \<and> map_of ms ''expected_origins'' = Some (strings_json (S_ExpectedOrigins s))"
proof -
  obtain reg cm now where reg: "registration_claim D s = Inr reg"
    and cs: "cs = [(''response_type'', str ''vp_token''), (''response_mode'', str ''dc_api.jwt''),
       (''nonce'', str (S_Nonce s)), (''dcql_query'', AnyQ (S_Query s)),
       (''client_metadata'', AnyJ cm), (memberRegistration, AnyJ reg)]
      @ verifier_info_members s @ transaction_data_members e s
      @ (if sg then [(''client_id'', str (e_clientID e)),
           (''expected_origins'', AnyJ (strings_json (S_ExpectedOrigins s))),
           (''iss'', str (e_clientID e)), (''aud'', str audWallet),
           (''iat'', num (time_unix now)), (''nbf'', num (time_unix now)),
           (''exp'', num (time_unix (S_ExpiresAt s)))] else [])"
    using assms(1) by (rule dcapiClaims_Inr)
  obtain q where "QueryJSON D (S_Query s) = Inr q" "map_of ms ''dcql_query'' = Some q"
    using on_wire_Q [OF assms(2), of "''dcql_query''" "S_Query s"] by (auto simp: cs)
  moreover have "map_of ms ''response_mode'' = Some (JStr ''dc_api.jwt'')"
      "map_of ms ''nonce'' = Some (JStr (S_Nonce s))" "map_of ms ''verifier_registration'' = Some reg"
    by (rule on_wire_J [OF assms(2)]; simp add: cs member_defs)+
  ultimately show "says_session D s ms"
    using reg by (auto simp: says_session_def registration_claim_Inr)
  have opt: "map_of (verifier_info_members s) k = None" "map_of (transaction_data_members e s) k = None"
    if "k \<in> {''client_id'', ''expected_origins''}" for k
    using that by (auto simp: verifier_info_members_def transaction_data_members_def member_defs)
  show "map_of ms ''client_id'' = Some (JStr (e_clientID e))
      \<and> map_of ms ''expected_origins'' = Some (strings_json (S_ExpectedOrigins s))" if sg
    by (intro conjI on_wire_J [OF assms(2)]) (simp_all add: cs that member_defs map_add_def opt)
qed

text \<open>
  C34: The signed request of the Digital Credentials API. It is made only for an unexpired DC API session;
  what is signed is one object with the shared members and the seven members of a signed request, the
  engine's identity and the session's expected origins among them, and with no response endpoint and
  no state; the result wraps the token under the signed protocol identifier.
\<close>

theorem dcapi_signed_request:
  assumes "DCAPIRequest D e (Some s) w = (Inr member, w')"
  shows "S_Flow s = DCAPI \<and> e_clock e (w_ticks w) < S_ExpiresAt s
    \<and> (\<exists>ms n tok.
      SignJWS D (C_Keys (e_cfg e)) (C_SigningKeyID (e_cfg e))
        \<lparr>hdr_typ = ''oauth-authz-req+jwt'', hdr_x5c = C_WRPACChain (e_cfg e)\<rparr>
        (json_print (JObj ms)) n = Inr tok
    \<and> member = json_print (JObj [(''data'', JObj [(''request'', JStr tok)]),
        (''protocol'', JStr ''openid4vp-v1-signed'')])
    \<and> sorted_wrt (<) (map fst ms) \<and> set (map fst ms) = dcapi_members_of e s \<union> signed_only
    \<and> ''response_uri'' \<notin> set (map fst ms) \<and> ''state'' \<notin> set (map fst ms)
    \<and> says_session D s ms
    \<and> map_of ms ''client_id'' = Some (JStr (e_clientID e))
    \<and> map_of ms ''expected_origins'' = Some (strings_json (S_ExpectedOrigins s)))"
proof -
  from assms obtain cs w1 v tok where 1: "S_Flow s = DCAPI" "live_at (e_clock e (w_ticks w)) s"
      "dcapiClaims D e s True (w\<lparr>w_ticks := Suc (w_ticks w)\<rparr>) = (Inr cs, w1)"
      "marshal_claims D cs = Inr v"
      "SignJWS D (C_Keys (e_cfg e)) (C_SigningKeyID (e_cfg e))
         \<lparr>hdr_typ = typOAuthAuthzReq, hdr_x5c = C_WRPACChain (e_cfg e)\<rparr>
         (json_print v) (w_entropy w1) = Inr tok"
      "member = json_print (json_map [(''protocol'', JStr dcapiProtocolSigned),
         (''data'', JObj [(''request'', JStr tok)])])"
    by (auto simp: DCAPIRequest_def sign_request_def tick_def
        split: if_splits prod.splits sum.splits)
  obtain ms where ms: "v = JObj ms" "on_wire D cs ms"
    using marshal_claims_on_wire [OF 1(4) dcapi_keys(1) [OF 1(3)]] by blast
  have "sorted_wrt (<) (map fst ms)"
    and keys: "set (map fst ms) = dcapi_members_of e s \<union> signed_only"
    using ms(2) dcapi_keys(2) [OF 1(3)] by (simp_all only: on_wire_def if_True)
  moreover have "''response_uri'' \<notin> set (map fst ms) \<and> ''state'' \<notin> set (map fst ms)"
    unfolding keys by (simp add: dcapi_members_of_def signed_only_def)
  moreover have "member = json_print (JObj [(''data'', JObj [(''request'', JStr tok)]),
      (''protocol'', JStr ''openid4vp-v1-signed'')])"
    unfolding 1(6) by (simp add: json_map_def dcapiProtocolSigned_def del: json_print.simps)
  ultimately show ?thesis
    using 1(1,2) 1(5) [unfolded ms(1) typOAuthAuthzReq_def] dcapi_on_wire [OF 1(3) ms(2)]
    unfolding live_at_def by blast
qed

theorem dcapi_signed_request_witness:
  "\<exists>member w' ms. DCAPIRequest sample_deps sample_engine (Some sample_dcapi) sample_world
      = (Inr member, w')
    \<and> map_of ms ''expected_origins'' = Some (JArr [JStr ''https://shop.example''])
    \<and> ''response_uri'' \<notin> set (map fst ms)"
proof -
  obtain member w' where
    ok: "DCAPIRequest sample_deps sample_engine (Some sample_dcapi) sample_world = (Inr member, w')"
    by (rule sample_dcapi_request)
  have "strings_json (S_ExpectedOrigins sample_dcapi) = JArr [JStr ''https://shop.example'']"
    by (simp add: strings_json_def sample_dcapi_def sample_session_def)
  with dcapi_signed_request [OF ok] ok show ?thesis by auto
qed

text \<open>
  C35: The unsigned request carries exactly the shared members, in particular no client id. It does not
  look at the expiry at all: whatever the session's \<open>ExpiresAt\<close>, the result is the same, whereas the
  signed request of an expired session is refused.
\<close>

theorem dcapi_unsigned_request:
  "(case DCAPIUnsignedRequest D e (Some s) w of
      (Inr member, w') \<Rightarrow> S_Flow s = DCAPI \<and> (\<exists>ms.
          member = json_print (JObj [(''data'', JObj ms), (''protocol'', JStr ''openid4vp-v1-unsigned'')])
          \<and> sorted_wrt (<) (map fst ms) \<and> set (map fst ms) = dcapi_members_of e s
          \<and> ''client_id'' \<notin> set (map fst ms) \<and> says_session D s ms)
    | (Inl er, w') \<Rightarrow> True)
   \<and> DCAPIUnsignedRequest D e (Some (s\<lparr>S_ExpiresAt := t\<rparr>)) w = DCAPIUnsignedRequest D e (Some s) w
   \<and> (S_Flow s = DCAPI \<and> t \<le> e_clock e (w_ticks w)
       \<longrightarrow> fst (DCAPIRequest D e (Some (s\<lparr>S_ExpiresAt := t\<rparr>)) w) = Inl (Sentinel ErrSessionExpired))"
proof -
  have ok: "S_Flow s = DCAPI \<and> (\<exists>ms.
        member = json_print (JObj [(''data'', JObj ms), (''protocol'', JStr ''openid4vp-v1-unsigned'')])
        \<and> sorted_wrt (<) (map fst ms) \<and> set (map fst ms) = dcapi_members_of e s
        \<and> ''client_id'' \<notin> set (map fst ms) \<and> says_session D s ms)"
    if "DCAPIUnsignedRequest D e (Some s) w = (Inr member, w')" for member w'
  proof -
    from that obtain cs v where 1: "S_Flow s = DCAPI" "dcapiClaims D e s False w = (Inr cs, w')"
        "marshal_claims D cs = Inr v"
        "member = json_print (json_map [(''protocol'', JStr dcapiProtocolUnsigned), (''data'', v)])"
      by (auto simp: DCAPIUnsignedRequest_def split: if_splits prod.splits sum.splits)
    obtain ms where ms: "v = JObj ms" "on_wire D cs ms"
      using marshal_claims_on_wire [OF 1(3) dcapi_keys(1) [OF 1(2)]] by blast
    then have "sorted_wrt (<) (map fst ms)" "set (map fst ms) = dcapi_members_of e s"
      using dcapi_keys(2) [OF 1(2)] by (simp_all add: on_wire_def)
    moreover have "member = json_print (JObj [(''data'', JObj ms),
        (''protocol'', JStr ''openid4vp-v1-unsigned'')])"
      unfolding 1(4) ms(1)
      by (simp add: json_map_def dcapiProtocolUnsigned_def del: json_print.simps)
    moreover have "''client_id'' \<notin> dcapi_members_of e s" by (simp add: dcapi_members_of_def)
    ultimately show ?thesis using 1(1) dcapi_on_wire(1) [OF 1(2) ms(2)] by metis
  qed
  have "ephemeralPrivateKey D (s\<lparr>S_ExpiresAt := t\<rparr>) = ephemeralPrivateKey D s"
    by (simp add: ephemeralPrivateKey_def)
  then have "clientMetadata D e (s\<lparr>S_ExpiresAt := t\<rparr>) = clientMetadata D e s"
    by (simp add: clientMetadata_def split: sum.split)
  then have "DCAPIUnsignedRequest D e (Some (s\<lparr>S_ExpiresAt := t\<rparr>)) w = DCAPIUnsignedRequest D e (Some s) w"
    by (simp add: DCAPIUnsignedRequest_def dcapiClaims_def registration_claim_def
        verifier_info_members_def transaction_data_members_def split: sum.split)
  with ok show ?thesis
    by (auto simp: DCAPIRequest_def tick_def live_at_def split: prod.splits sum.splits)
qed

theorem dcapi_unsigned_request_witness:
  "fst (DCAPIRequest sample_deps sample_engine (Some (sample_dcapi\<lparr>S_ExpiresAt := 0\<rparr>)) sample_world)
     = Inl (Sentinel ErrSessionExpired)"
  using dcapi_unsigned_request [where D = sample_deps and e = sample_engine and s = sample_dcapi
      and w = sample_world and t = 0]
  by (simp add: sample_dcapi_def flow_defs sample_engine_def make_engine_def Let_def sample_cfg_def
      sample_deps_def)

end
