(* ===== verification/New_Session.thy ===== *)
theory New_Session
  imports Request_Object
begin

text \<open>
  Session creation (\<open>newsession.go\<close>): the fail-closed validation of a request spec, the generation of
  the session secrets and of the ephemeral key, and the wallet invocation of each flow.
\<close>

section \<open>Request specs\<close>

record ('q, 'r) request_spec =
  R_Query :: 'q
  R_Flow :: string
  R_ResponseURI :: string
  R_ReturnURI :: string
  R_Registration :: 'r
  R_WRPRC :: bytes
  R_TransactionData :: "bytes list"
  R_ExpectedOrigins :: "string list"

record invocation =
  I_SchemeURI :: string
  I_UniversalLink :: string
  I_QRPayload :: string
  I_DCAPI :: bytes

definition zero_invocation :: invocation where
  "zero_invocation = \<lparr>I_SchemeURI = [], I_UniversalLink = [], I_QRPayload = [], I_DCAPI = []\<rparr>"

section \<open>Validation\<close>

definition validHTTPSURL :: "('q, 'r) deps \<Rightarrow> string \<Rightarrow> err option" where
  "validHTTPSURL D raw =
     (if raw = [] then Some (Errorf [] [])
      else
        (case url_parse (ParseIPLiteral D) raw of
           None \<Rightarrow> Some (Foreign ''url.Parse'')
         | Some u \<Rightarrow>
             if U_Scheme u \<noteq> ''https'' \<or> U_Host u = [] then Some (Errorf [] []) else None))"

definition validOrigin :: "('q, 'r) deps \<Rightarrow> string \<Rightarrow> err option" where
  "validOrigin D raw =
     (case url_parse (ParseIPLiteral D) raw of
        None \<Rightarrow> Some (Foreign ''url.Parse'')
      | Some u \<Rightarrow>
          if U_Scheme u \<noteq> ''https'' \<or> U_Host u = [] \<or> U_Path u \<noteq> [] \<or> U_RawQuery u \<noteq> []
             \<or> U_Fragment u \<noteq> [] \<or> U_User u
          then Some (Errorf [] []) else None)"

definition validResponseURI :: "('q, 'r) deps \<Rightarrow> engine \<Rightarrow> string \<Rightarrow> err option" where
  "validResponseURI D e raw =
     (case validHTTPSURL D raw of
        Some er \<Rightarrow> Some (failw ErrSpec er)
      | None \<Rightarrow>
          (case url_parse (ParseIPLiteral D) raw of
             None \<Rightarrow> Some (failw ErrSpec (Foreign ''url.Parse''))
           | Some u \<Rightarrow>
               if url_hostname u \<noteq> C_ClientDNSName (e_cfg e) then
                 Some (failq ErrSpec [url_hostname u, C_ClientDNSName (e_cfg e)])
               else None))"

text \<open>The part of the validation that depends on the flow.\<close>

definition validate_flow ::
    "('q, 'r) deps \<Rightarrow> engine \<Rightarrow> ('q, 'r) request_spec \<Rightarrow> err option" where
  "validate_flow D e spec =
     (if R_Flow spec = SameDevice \<or> R_Flow spec = CrossDevice then
        (case validResponseURI D e (R_ResponseURI spec) of
           Some er \<Rightarrow> Some er
         | None \<Rightarrow>
             if R_ExpectedOrigins spec \<noteq> [] then Some (failq ErrSpec [])
             else if R_Flow spec = SameDevice then
               (case validHTTPSURL D (R_ReturnURI spec) of
                  Some er \<Rightarrow> Some (failw ErrSpec er)
                | None \<Rightarrow> None)
             else if R_ReturnURI spec \<noteq> [] then Some (failq ErrSpec [])
             else None)
      else if R_Flow spec = DCAPI then
        (if R_ResponseURI spec \<noteq> [] \<or> R_ReturnURI spec \<noteq> [] then Some (failq ErrSpec [])
         else if R_ExpectedOrigins spec = [] then Some (failq ErrSpec [])
         else
           firstErr (\<lambda>org. case validOrigin D org of
                             Some er \<Rightarrow> Some (Errorf [Sentinel ErrSpec, er] [org])
                           | None \<Rightarrow> None) (R_ExpectedOrigins spec))
      else Some (failq ErrSpec [R_Flow spec]))"

definition validateSpec ::
    "('q, 'r) deps \<Rightarrow> engine \<Rightarrow> ('q, 'r) request_spec \<Rightarrow> err option" where
  "validateSpec D e spec =
     (if isZeroRegistration D (R_Registration spec) then Some (Sentinel ErrNoRegistration)
      else if Credentials D (R_Query spec) = [] then Some (failq ErrSpec [])
      else
        (case QueryValidate D (R_Query spec) of
           Some er \<Rightarrow> Some (failw ErrSpec (Foreign er))
         | None \<Rightarrow>
             (if R_TransactionData spec \<noteq> [] \<and> \<not> C_EnableTransactionData (e_cfg e) then
                Some (Sentinel ErrTransactionDataDisabled)
              else
                (case (if R_TransactionData spec \<noteq> [] then
                         validateTransactionData (R_TransactionData spec) else None) of
                   Some er \<Rightarrow> Some er
                 | None \<Rightarrow> validate_flow D e spec))))"

section \<open>Wallet invocation\<close>

definition request_uri :: "engine \<Rightarrow> string \<Rightarrow> string" where
  "request_uri e sid =
     (case C_RequestURIFunc (e_cfg e) of
        None \<Rightarrow> C_RequestURIBase (e_cfg e) @ ''/'' @ sid
      | Some f \<Rightarrow> f sid)"

definition invocation_values :: "engine \<Rightarrow> string \<Rightarrow> url_values" where
  "invocation_values e sid =
     [(''client_id'', e_clientID e),
      (''request_uri'', request_uri e sid),
      (''request_uri_method'', ''get'')]"

definition invocation_of ::
    "('q, 'r) deps \<Rightarrow> engine \<Rightarrow> ('q, 'r) session \<Rightarrow> world \<Rightarrow> (err + invocation) \<times> world" where
  "invocation_of D e s w =
     (if S_Flow s = DCAPI then
        bindW (DCAPIRequest D e (Some s) w)
          (\<lambda>member w'. (Inr (zero_invocation\<lparr>I_DCAPI := member\<rparr>), w'))
      else
        (let enc = values_encode (invocation_values e (S_ID s));
             inv = zero_invocation\<lparr>I_SchemeURI := ''openid4vp://?'' @ enc,
                     I_UniversalLink := C_UniversalLinkBase (e_cfg e) @ ''?'' @ enc\<rparr>
         in (Inr (inv\<lparr>I_QRPayload := I_SchemeURI inv\<rparr>), w)))"

section \<open>NewSession\<close>

definition generate_key ::
    "('q, 'r) deps \<Rightarrow> engine \<Rightarrow> world \<Rightarrow> (err + ec_private) \<times> world" where
  "generate_key D e w =
     (case GenerateEphemeralKey D (re_Curve (C_ResponseEncryption (e_cfg e))) (w_entropy w) of
        Inl er \<Rightarrow> (Inl (Foreign er), w\<lparr>w_entropy := Suc (w_entropy w)\<rparr>)
      | Inr k \<Rightarrow> (Inr k, w\<lparr>w_entropy := Suc (w_entropy w)\<rparr>))"

definition marshal_key :: "('q, 'r) deps \<Rightarrow> ec_private \<Rightarrow> world \<Rightarrow> (err + bytes) \<times> world" where
  "marshal_key D k w =
     (case MarshalPKCS8 D k of
        Inl er \<Rightarrow> (Inl (failw ErrConfig (Foreign er)), w)
      | Inr der \<Rightarrow> (Inr der, w))"

definition make_session ::
    "engine \<Rightarrow> ('q, 'r) request_spec \<Rightarrow> string \<Rightarrow> string \<Rightarrow> string \<Rightarrow> bytes \<Rightarrow> go_time \<Rightarrow> ('q, 'r) session" where
  "make_session e spec sid nonce state der now =
     \<lparr>S_ID = sid, S_Flow = R_Flow spec, S_ClientID = e_clientID e, S_Nonce = nonce,
      S_State = state, S_ResponseURI = R_ResponseURI spec, S_ReturnURI = R_ReturnURI spec,
      S_Query = R_Query spec, S_Registration = R_Registration spec, S_WRPRC = R_WRPRC spec,
      S_TransactionData = R_TransactionData spec, S_ExpectedOrigins = R_ExpectedOrigins spec,
      S_EphemeralKeyPKCS8 = der, S_CreatedAt = now,
      S_ExpiresAt = now + C_SessionTTL (e_cfg e),
      S_RequestObjectServed = False, S_WalletMetadata = [], S_Consumed = False,
      S_ResponseCode = [], S_ResponseCodeUsed = False\<rparr>"

definition NewSession ::
    "('q, 'r) deps \<Rightarrow> engine \<Rightarrow> ('q, 'r) request_spec \<Rightarrow> world
     \<Rightarrow> (err + ('q, 'r) session \<times> invocation) \<times> world" where
  "NewSession D e spec w0 =
     (case validateSpec D e spec of
        Some er \<Rightarrow> (Inl er, w0)
      | None \<Rightarrow>
          bindW (randToken (e_rand e) tokenBytes w0) (\<lambda>sid w1.
          bindW (randToken (e_rand e) tokenBytes w1) (\<lambda>nonce w2.
          bindW (randToken (e_rand e) tokenBytes w2) (\<lambda>state w3.
          bindW (generate_key D e w3) (\<lambda>key w4.
          bindW (marshal_key D key w4) (\<lambda>der w5.
            (case tick (e_clock e) w5 of
               (now, w6) \<Rightarrow>
                 (let s = make_session e spec sid nonce state der now in
                  bindW (invocation_of D e s w6) (\<lambda>inv w7. (Inr (s, inv), w7)))))))))) "

section \<open>What a request spec must satisfy\<close>

definition https_url :: "('q, 'r) deps \<Rightarrow> string \<Rightarrow> bool" where
  "https_url D raw \<longleftrightarrow> raw \<noteq> []
     \<and> (\<exists>u. url_parse (ParseIPLiteral D) raw = Some u \<and> U_Scheme u = ''https'' \<and> U_Host u \<noteq> [])"

definition web_origin :: "('q, 'r) deps \<Rightarrow> string \<Rightarrow> bool" where
  "web_origin D raw \<longleftrightarrow>
     (\<exists>u. url_parse (ParseIPLiteral D) raw = Some u \<and> U_Scheme u = ''https'' \<and> U_Host u \<noteq> []
        \<and> U_Path u = [] \<and> U_RawQuery u = [] \<and> U_Fragment u = [] \<and> \<not> U_User u)"

text \<open>The response endpoint is on the host the certificate names.\<close>

definition own_host :: "('q, 'r) deps \<Rightarrow> engine \<Rightarrow> string \<Rightarrow> bool" where
  "own_host D e raw \<longleftrightarrow>
     (\<exists>u. url_parse (ParseIPLiteral D) raw = Some u \<and> url_hostname u = C_ClientDNSName (e_cfg e))"

definition flow_ok :: "('q, 'r) deps \<Rightarrow> engine \<Rightarrow> ('q, 'r) request_spec \<Rightarrow> bool" where
  "flow_ok D e spec \<longleftrightarrow>
     R_Flow spec \<in> {SameDevice, CrossDevice} \<and> https_url D (R_ResponseURI spec)
       \<and> own_host D e (R_ResponseURI spec) \<and> R_ExpectedOrigins spec = []
       \<and> (if R_Flow spec = SameDevice then https_url D (R_ReturnURI spec) else R_ReturnURI spec = [])
     \<or> R_Flow spec = DCAPI \<and> R_ResponseURI spec = [] \<and> R_ReturnURI spec = []
       \<and> R_ExpectedOrigins spec \<noteq> [] \<and> (\<forall>org \<in> set (R_ExpectedOrigins spec). web_origin D org)"

definition spec_ok :: "('q, 'r) deps \<Rightarrow> engine \<Rightarrow> ('q, 'r) request_spec \<Rightarrow> bool" where
  "spec_ok D e spec \<longleftrightarrow>
     R_Registration spec \<noteq> ZeroRef D \<and> Credentials D (R_Query spec) \<noteq> []
     \<and> QueryValidate D (R_Query spec) = None
     \<and> (R_TransactionData spec \<noteq> [] \<longrightarrow> C_EnableTransactionData (e_cfg e)
          \<and> (\<forall>entry \<in> set (R_TransactionData spec). is_object_entry entry))
     \<and> flow_ok D e spec"

lemma validHTTPSURL_None: "validHTTPSURL D raw = None \<longleftrightarrow> https_url D raw"
  by (auto simp: validHTTPSURL_def https_url_def split: option.splits)

lemma validOrigin_None: "validOrigin D raw = None \<longleftrightarrow> web_origin D raw"
  by (auto simp: validOrigin_def web_origin_def split: option.splits)

lemma validResponseURI_None:
  "validResponseURI D e raw = None \<longleftrightarrow> https_url D raw \<and> own_host D e raw"
  by (auto simp: validResponseURI_def own_host_def validHTTPSURL_None [symmetric] split: option.splits)

lemma firstErr_map_None:
  "firstErr (\<lambda>x. case f x of Some er \<Rightarrow> Some (g x er) | None \<Rightarrow> None) xs = None
     \<longleftrightarrow> (\<forall>x \<in> set xs. f x = None)"
  by (auto simp: firstErr_None_iff split: option.splits)

lemma validate_flow_None: "validate_flow D e spec = None \<longleftrightarrow> flow_ok D e spec"
  unfolding validate_flow_def flow_ok_def
  by (auto simp: validResponseURI_None validHTTPSURL_None validOrigin_None firstErr_map_None
      case_first_None split: option.splits)

lemma case_chain_None:
  "(case x of Some er \<Rightarrow> Some er | None \<Rightarrow> y) = None \<longleftrightarrow> x = None \<and> y = None"
  by (cases x) simp_all

lemma validateSpec_None: "validateSpec D e spec = None \<longleftrightarrow> spec_ok D e spec"
  by (auto simp: validateSpec_def spec_ok_def validate_flow_None isZeroRegistration_def case_chain_None
      validateTransactionData_def validate_entries_None list_all_iff case_first_None)

text \<open>Refusals are the caller's errors: one sentinel, none of which the wallet can cause.\<close>

definition spec_err :: "err \<Rightarrow> bool" where
  "spec_err er \<longleftrightarrow> errors_as_wallet er = None
     \<and> (\<exists>s \<in> {ErrSpec, ErrNoRegistration, ErrTransactionDataDisabled, ErrTransactionDataInvalid}.
          sentinels er = [s])"

lemma spec_err_status: "spec_err er \<Longrightarrow> fst (ErrorResponse (Some er)) = 500"
  by (auto simp: spec_err_def ErrorResponse_single status_spec_def)

lemma url_err_plain:
  "validHTTPSURL D raw = Some er \<Longrightarrow> sentinels er = [] \<and> errors_as_wallet er = None"
  "validOrigin D raw = Some er \<Longrightarrow> sentinels er = [] \<and> errors_as_wallet er = None"
  by (auto simp: validHTTPSURL_def validOrigin_def split: option.splits if_splits)

lemma spec_err_intros [intro]:
  "spec_err (failq ErrSpec qs)" "spec_err (Sentinel ErrNoRegistration)"
  "spec_err (Sentinel ErrTransactionDataDisabled)" "spec_err (failq ErrTransactionDataInvalid qs)"
  "sentinels er = [] \<and> errors_as_wallet er = None \<Longrightarrow> spec_err (failw ErrSpec er)"
  "sentinels er = [] \<and> errors_as_wallet er = None \<Longrightarrow> spec_err (Errorf [Sentinel ErrSpec, er] qs)"
  by (auto simp: spec_err_def failw_def)

lemma validResponseURI_err: "validResponseURI D e raw = Some er \<Longrightarrow> spec_err er"
  by (auto simp: validResponseURI_def split: option.splits if_splits dest: url_err_plain)

lemma validate_flow_err: "validate_flow D e spec = Some er \<Longrightarrow> spec_err er"
  unfolding validate_flow_def
  by (auto split: option.splits if_splits dest: validResponseURI_err url_err_plain
      dest!: firstErr_Some_D intro: spec_err_intros(6) [OF url_err_plain(2)])

lemma validateSpec_err: "validateSpec D e spec = Some er \<Longrightarrow> spec_err er"
  unfolding validateSpec_def validateTransactionData_def
  by (auto split: option.splits if_splits dest: validate_flow_err validate_entries_Some)

section \<open>What a new session is\<close>

lemma generate_key_Inr: "generate_key D e w = (Inr k, w') \<longleftrightarrow>
    GenerateEphemeralKey D (re_Curve (C_ResponseEncryption (e_cfg e))) (w_entropy w) = Inr k
    \<and> w' = w\<lparr>w_entropy := Suc (w_entropy w)\<rparr>"
  by (auto simp: generate_key_def split: sum.splits)

lemma marshal_key_Inr: "marshal_key D k w = (Inr der, w') \<longleftrightarrow> MarshalPKCS8 D k = Inr der \<and> w' = w"
  by (auto simp: marshal_key_def split: sum.splits)

lemma NewSession_Inr:
  assumes "NewSession D e spec w0 = (Inr (s, iv), w')"
  obtains sid w1 nonce w2 state w3 key der where
    "spec_ok D e spec"
    "randToken (e_rand e) tokenBytes w0 = (Inr sid, w1)"
    "randToken (e_rand e) tokenBytes w1 = (Inr nonce, w2)"
    "randToken (e_rand e) tokenBytes w2 = (Inr state, w3)"
    "GenerateEphemeralKey D (re_Curve (C_ResponseEncryption (e_cfg e))) (w_entropy w3) = Inr key"
    "MarshalPKCS8 D key = Inr der"
    "s = make_session e spec sid nonce state der (e_clock e (w_ticks w3))"
    "invocation_of D e s
       (w3\<lparr>w_entropy := Suc (w_entropy w3), w_ticks := Suc (w_ticks w3)\<rparr>) = (Inr iv, w')"
proof -
  have v: "validateSpec D e spec = None" using assms by (auto simp: NewSession_def split: option.splits)
  with assms that show ?thesis
    by (auto simp: NewSession_def bindW_Inr generate_key_Inr marshal_key_Inr tick_def Let_def
        validateSpec_None)
qed

lemma NewSession_refused: "validateSpec D e spec = Some er \<Longrightarrow> NewSession D e spec w = (Inl er, w)"
  by (simp add: NewSession_def)

lemma three_tokens:
  assumes "randToken r 16 w0 = (Inr a, w1)" and "randToken r 16 w1 = (Inr b, w2)"
    and "randToken r 16 w2 = (Inr c, w3)"
  shows "\<exists>x y z. length x = 16 \<and> length y = 16 \<and> length z = 16
    \<and> a = b64_encode x \<and> b = b64_encode y \<and> c = b64_encode z
    \<and> (\<forall>i < 48. r (w_rpos w0 + i) = Some ((x @ y @ z) ! i))
    \<and> w3 = w0\<lparr>w_rpos := w_rpos w0 + 48\<rparr>"
proof -
  obtain x where x: "length x = 16" "a = b64_encode x" "\<forall>i < 16. r (w_rpos w0 + i) = Some (x ! i)"
      "w1 = w0\<lparr>w_rpos := w_rpos w0 + 16\<rparr>"
    using randToken_token [OF assms(1)] by auto
  obtain y where y: "length y = 16" "b = b64_encode y" "\<forall>i < 16. r (w_rpos w1 + i) = Some (y ! i)"
      "w2 = w1\<lparr>w_rpos := w_rpos w1 + 16\<rparr>"
    using randToken_token [OF assms(2)] by auto
  obtain z where z: "length z = 16" "c = b64_encode z" "\<forall>i < 16. r (w_rpos w2 + i) = Some (z ! i)"
      "w3 = w2\<lparr>w_rpos := w_rpos w2 + 16\<rparr>"
    using randToken_token [OF assms(3)] by auto
  have "r (w_rpos w0 + i) = Some ((x @ y @ z) ! i)" if i: "i < 48" for i
  proof -
    consider "i < 16" | "16 \<le> i" "i < 32" | "32 \<le> i" by linarith
    then show ?thesis
    proof cases
      case 1
      then show ?thesis using x by (simp add: nth_append)
    next
      case 2
      then have "i - 16 < 16" by linarith
      with 2 show ?thesis using x y y(3) [rule_format, of "i - 16"] by (simp add: nth_append)
    next
      case 3
      then have "i - 32 < 16" "\<not> i - 16 < 16" using i by linarith+
      with 3 show ?thesis using x y z z(3) [rule_format, of "i - 32"] by (simp add: nth_append)
    qed
  qed
  with x y z show ?thesis by (intro exI [of _ x] exI [of _ y] exI [of _ z]) simp
qed

section \<open>Invocations\<close>

lemma sort_invocation: "sort_key fst (invocation_values e sid) = invocation_values e sid"
  by (simp add: invocation_values_def)

lemma invocation_query: "parse_query (values_encode (invocation_values e sid)) = Some (invocation_values e sid)"
  by (simp add: values_encode_round_trip sort_invocation)

lemma parse_wallet_scheme:
  "\<exists>u. url_parse ipl ''openid4vp://'' = Some u \<and> U_Scheme u = ''openid4vp''"
proof -
  have "cut (CHR ''#'') ''openid4vp://'' = (''openid4vp://'', [], False)"
    "cut (CHR ''?'') ''//'' = (''//'', [], False)" by simp_all
  moreover have "\<not> list_ex ctl_byte ''openid4vp://''" by (simp add: ctl_byte_def)
  moreover have "get_scheme ''openid4vp://'' = Some (''openid4vp'', ''//'')" by code_simp
  moreover have "map to_lower ''openid4vp'' = ''openid4vp''" by code_simp
  ultimately show ?thesis
    by (simp add: url_parse_def parse_nofrag_def parse_rest_def parse_authority_def parse_host_def
        empty_url_def Let_def del: cut.simps)
qed

lemma enc_clean: "CHR ''#'' \<notin> set (values_encode vs)" "\<not> list_ex ctl_byte (values_encode vs)"
  using values_encode_no_sep [of "CHR ''#''" vs] values_encode_not_ctl [of vs] by auto

text \<open>A query that starts with a second question mark hides its first parameter.\<close>

lemma parse_query_question:
  assumes "CHR ''='' \<notin> set k" and "CHR ''&'' \<notin> set (k @ v)" and "CHR '';'' \<notin> set (k @ v)"
    and "query_unescape k = Some k'" and "query_unescape v = Some v'"
  shows "parse_query (CHR ''?'' # (k @ ''='' @ v) @ CHR ''&'' # r)
    = map_option (\<lambda>vs. (CHR ''?'' # k', v') # vs) (parse_query r)"
proof -
  have "cut (CHR ''='') ((CHR ''?'' # k) @ CHR ''='' # v) = (CHR ''?'' # k, v, True)"
    using assms(1) by (intro cut_append) simp
  then have "query_pair (CHR ''?'' # k @ ''='' @ v) = Some (Some (CHR ''?'' # k', v'))"
    using assms by (simp add: query_pair_def)
  with assms(2) show ?thesis
    using parse_query_cons [of "CHR ''?'' # k @ ''='' @ v" "(CHR ''?'' # k', v')" r] by simp
qed

section \<open>Sample specs\<close>

definition sample_spec :: "(credential list, string) request_spec" where
  "sample_spec = \<lparr>R_Query = sample_query, R_Flow = ''same-device'',
     R_ResponseURI = ''https://v.example/r'', R_ReturnURI = ''https://c.example/cb'',
     R_Registration = ''EX-1'', R_WRPRC = [], R_TransactionData = [''{}''], R_ExpectedOrigins = []\<rparr>"

lemma sample_spec_valid: "validateSpec sample_deps sample_engine sample_spec = None"
  by code_simp

lemma sample_spec_ok: "spec_ok sample_deps sample_engine sample_spec"
  using sample_spec_valid by (simp add: validateSpec_None)

text \<open>The random source never fails and the crypto package makes and encodes keys.\<close>

definition can_generate :: "('q, 'r) deps \<Rightarrow> engine \<Rightarrow> bool" where
  "can_generate D e \<longleftrightarrow> (\<forall>p. e_rand e p \<noteq> None)
     \<and> (\<forall>n. \<exists>k der. GenerateEphemeralKey D (re_Curve (C_ResponseEncryption (e_cfg e))) n = Inr k
          \<and> MarshalPKCS8 D k = Inr der)"

lemma NewSession_ok:
  assumes "spec_ok D e spec" and "R_Flow spec \<noteq> DCAPI" and "can_generate D e"
  shows "\<exists>s iv w'. NewSession D e spec w = (Inr (s, iv), w')"
proof -
  have r: "\<forall>p. e_rand e p \<noteq> None" using assms(3) by (simp add: can_generate_def)
  obtain sid w1 where 1: "randToken (e_rand e) tokenBytes w = (Inr sid, w1)"
    using randToken_total [OF r] by blast
  obtain nonce w2 where 2: "randToken (e_rand e) tokenBytes w1 = (Inr nonce, w2)"
    using randToken_total [OF r] by blast
  obtain state w3 where 3: "randToken (e_rand e) tokenBytes w2 = (Inr state, w3)"
    using randToken_total [OF r] by blast
  obtain k der where "GenerateEphemeralKey D (re_Curve (C_ResponseEncryption (e_cfg e))) (w_entropy w3)
      = Inr k" "MarshalPKCS8 D k = Inr der"
    using assms(3) unfolding can_generate_def by blast
  then show ?thesis using assms(1,2) 1 2 3
    by (simp add: NewSession_def validateSpec_None [symmetric] generate_key_def marshal_key_def
        tick_def Let_def invocation_of_def make_session_def)
qed

lemma sample_can_generate: "can_generate sample_deps sample_engine"
  by (simp add: can_generate_def sample_defs)

lemma sample_new_session:
  obtains s iv w where "NewSession sample_deps sample_engine sample_spec sample_world = (Inr (s, iv), w)"
proof -
  have "R_Flow sample_spec \<noteq> DCAPI" by (simp add: sample_spec_def flow_defs)
  from NewSession_ok [OF sample_spec_ok this sample_can_generate] that show ?thesis by blast
qed

section \<open>Properties\<close>

text \<open>
  C12: Session creation is fail-closed. A spec passes validation exactly when it satisfies \<open>spec_ok\<close>; any
  other spec is refused with an internal error, and then nothing has happened: no randomness is drawn,
  no key is made and the clock is not read.
\<close>

theorem new_session_fail_closed:
  "(validateSpec D e spec = None \<longleftrightarrow> spec_ok D e spec)
   \<and> (\<not> spec_ok D e spec \<longrightarrow>
       (\<exists>er. NewSession D e spec w = (Inl er, w) \<and> fst (ErrorResponse (Some er)) = 500))"
proof (cases "validateSpec D e spec")
  case None
  then show ?thesis by (simp add: validateSpec_None)
next
  case (Some er)
  then have "\<not> spec_ok D e spec" by (simp flip: validateSpec_None)
  with Some show ?thesis
    using NewSession_refused [OF Some] validateSpec_err [OF Some] spec_err_status by auto
qed

theorem new_session_fail_closed_witness:
  "\<exists>er. NewSession sample_deps sample_engine (sample_spec\<lparr>R_Registration := []\<rparr>) sample_world
     = (Inl er, sample_world) \<and> fst (ErrorResponse (Some er)) = 500"
proof -
  have "\<not> spec_ok sample_deps sample_engine (sample_spec\<lparr>R_Registration := []\<rparr>)"
    by (simp add: spec_ok_def sample_deps_def)
  then show ?thesis using new_session_fail_closed by blast
qed

text \<open>
  C20: The secrets of a session. The id, the nonce and the state of a new session are the encodings of
  three consecutive, disjoint blocks of sixteen bytes of the random source, and each is a token of 22
  characters; distinct blocks give distinct tokens.
\<close>

theorem new_session_tokens:
  assumes "NewSession D e spec w = (Inr (s, iv), w')"
  shows "\<exists>x y z. length x = 16 \<and> length y = 16 \<and> length z = 16
    \<and> (\<forall>i < 48. e_rand e (w_rpos w + i) = Some ((x @ y @ z) ! i))
    \<and> b64_decode (S_ID s) = Some x \<and> b64_decode (S_Nonce s) = Some y \<and> b64_decode (S_State s) = Some z
    \<and> length (S_ID s) = 22 \<and> length (S_Nonce s) = 22 \<and> length (S_State s) = 22
    \<and> (S_Nonce s = S_State s \<longleftrightarrow> y = z) \<and> (S_ID s = S_Nonce s \<longleftrightarrow> x = y)"
proof -
  obtain sid w1 nonce w2 state w3 der where t:
      "randToken (e_rand e) 16 w = (Inr sid, w1)" "randToken (e_rand e) 16 w1 = (Inr nonce, w2)"
      "randToken (e_rand e) 16 w2 = (Inr state, w3)"
      "s = make_session e spec sid nonce state der (e_clock e (w_ticks w3))"
    using assms by (auto elim!: NewSession_Inr simp: tokenBytes_def)
  from three_tokens [OF t(1-3)] t(4) show ?thesis
    by (auto simp: make_session_def b64_round_trip b64_encode_length b64.inject)
qed

theorem new_session_tokens_witness:
  "\<exists>s iv w' x. NewSession sample_deps sample_engine sample_spec sample_world = (Inr (s, iv), w')
    \<and> b64_decode (S_ID s) = Some x \<and> length x = 16 \<and> length (S_State s) = 22"
proof -
  obtain s iv w' where
    ok: "NewSession sample_deps sample_engine sample_spec sample_world = (Inr (s, iv), w')"
    by (rule sample_new_session)
  from new_session_tokens [OF ok] ok show ?thesis by blast
qed

text \<open>
  C30: What a new session holds. It is created only from a valid spec, carries all eight parameters of the
  spec and the engine's identity, is neither served nor consumed, has no wallet metadata and no response
  code, and lives exactly the
  configured time, which is positive; its stored key is a key the crypto package made on the
  configured curve.
\<close>

theorem new_session_state:
  assumes "NewSession D e spec w = (Inr (s, iv), w')" and "built D e"
  shows "spec_ok D e spec
    \<and> S_Flow s = R_Flow spec \<and> S_ClientID s = ''x509_san_dns:'' @ C_ClientDNSName (e_cfg e)
    \<and> S_Query s = R_Query spec \<and> S_Registration s = R_Registration spec
    \<and> S_ResponseURI s = R_ResponseURI spec \<and> S_ReturnURI s = R_ReturnURI spec
    \<and> S_WRPRC s = R_WRPRC spec
    \<and> S_TransactionData s = R_TransactionData spec \<and> S_ExpectedOrigins s = R_ExpectedOrigins spec
    \<and> S_WalletMetadata s = []
    \<and> \<not> S_RequestObjectServed s \<and> \<not> S_Consumed s \<and> S_ResponseCode s = [] \<and> \<not> S_ResponseCodeUsed s
    \<and> S_CreatedAt s = e_clock e (w_ticks w) \<and> S_ExpiresAt s = S_CreatedAt s + C_SessionTTL (e_cfg e)
    \<and> S_CreatedAt s < S_ExpiresAt s
    \<and> (\<exists>n key. GenerateEphemeralKey D (re_Curve (C_ResponseEncryption (e_cfg e))) n = Inr key
         \<and> MarshalPKCS8 D key = Inr (S_EphemeralKeyPKCS8 s))"
proof -
  obtain sid w1 nonce w2 state w3 key der where t: "spec_ok D e spec"
      "randToken (e_rand e) 16 w = (Inr sid, w1)" "randToken (e_rand e) 16 w1 = (Inr nonce, w2)"
      "randToken (e_rand e) 16 w2 = (Inr state, w3)"
      "GenerateEphemeralKey D (re_Curve (C_ResponseEncryption (e_cfg e))) (w_entropy w3) = Inr key"
      "MarshalPKCS8 D key = Inr der"
      "s = make_session e spec sid nonce state der (e_clock e (w_ticks w3))"
    using assms(1) by (auto elim!: NewSession_Inr simp: tokenBytes_def)
  have "w_ticks w3 = w_ticks w" using three_tokens [OF t(2-4)] by auto
  with t show ?thesis
    using built_bounds [OF assms(2)] built_clientID [OF assms(2)]
    by (auto simp: make_session_def ClientIDPrefixX509SANDNS_def)
qed

theorem new_session_state_witness:
  "\<exists>s iv w'. NewSession sample_deps sample_engine sample_spec sample_world = (Inr (s, iv), w')
    \<and> S_ClientID s = ''x509_san_dns:v.example'' \<and> S_ExpiresAt s = S_CreatedAt s + 300000000000"
proof -
  obtain s iv w' where
    ok: "NewSession sample_deps sample_engine sample_spec sample_world = (Inr (s, iv), w')"
    by (rule sample_new_session)
  from new_session_state [OF ok sample_built] ok show ?thesis
    by (auto simp: sample_defs DefaultSessionTTL_def)
qed

text \<open>
  C31: Sessions are created when they are due: for a valid spec of a request-URI flow creation succeeds
  unless the random source or the crypto package fails, and what is returned is live at once.
\<close>

theorem new_session_succeeds:
  assumes "spec_ok D e spec" and "R_Flow spec \<noteq> DCAPI" and "can_generate D e" and "built D e"
  shows "\<exists>s iv w'. NewSession D e spec w = (Inr (s, iv), w') \<and> live_at (S_CreatedAt s) s"
proof -
  obtain s iv w' where ok: "NewSession D e spec w = (Inr (s, iv), w')"
    using NewSession_ok [OF assms(1-3)] by blast
  then have "live_at (S_CreatedAt s) s"
    using built_bounds [OF assms(4)] by (auto elim!: NewSession_Inr simp: make_session_def live_at_def)
  with ok show ?thesis by blast
qed

theorem new_session_succeeds_witness:
  "\<exists>s iv w'. NewSession sample_deps sample_engine sample_spec sample_world = (Inr (s, iv), w')
     \<and> live_at (S_CreatedAt s) s"
  by (rule new_session_succeeds [OF sample_spec_ok _ sample_can_generate sample_built])
    (simp add: sample_spec_def flow_defs)

text \<open>
  C32: The wallet can read the invocation. For a request-URI flow the scheme URI parses, with the wallet's
  scheme, to a query that decodes to exactly the client id, the request URI of the session and the
  method; the QR payload is that URI; and the universal link, on a base without question mark and
  number sign, parses to the same scheme, host and path as the base and to the same query.
\<close>

theorem invocation_round_trip:
  assumes "NewSession D e spec w = (Inr (s, iv), w')" and "S_Flow s \<noteq> DCAPI"
    and "url_parse (ParseIPLiteral D) (C_UniversalLinkBase (e_cfg e)) = Some b"
    and "U_Scheme b = ''https''"
    and "CHR ''?'' \<notin> set (C_UniversalLinkBase (e_cfg e))" and "CHR ''#'' \<notin> set (C_UniversalLinkBase (e_cfg e))"
  shows "\<exists>u q. url_parse (ParseIPLiteral D) (I_SchemeURI iv) = Some u \<and> U_Scheme u = ''openid4vp''
    \<and> U_RawQuery u = q
    \<and> parse_query q = Some [(''client_id'', e_clientID e), (''request_uri'', request_uri e (S_ID s)),
        (''request_uri_method'', ''get'')]
    \<and> I_QRPayload iv = I_SchemeURI iv \<and> I_DCAPI iv = []
    \<and> url_parse (ParseIPLiteral D) (I_UniversalLink iv) = Some (b\<lparr>U_RawQuery := q\<rparr>)"
proof -
  let ?q = "values_encode (invocation_values e (S_ID s))"
  have "iv = zero_invocation\<lparr>I_SchemeURI := ''openid4vp://?'' @ ?q,
      I_UniversalLink := C_UniversalLinkBase (e_cfg e) @ ''?'' @ ?q,
      I_QRPayload := ''openid4vp://?'' @ ?q\<rparr>"
    using assms(1,2) by (auto elim!: NewSession_Inr simp: invocation_of_def Let_def zero_invocation_def)
  moreover obtain u where "url_parse (ParseIPLiteral D) ''openid4vp://'' = Some u"
      "U_Scheme u = ''openid4vp''"
    using parse_wallet_scheme by blast
  moreover from this have
      "url_parse (ParseIPLiteral D) (''openid4vp://'' @ CHR ''?'' # ?q) = Some (u\<lparr>U_RawQuery := ?q\<rparr>)"
    by (intro url_parse_with_query enc_clean) simp_all
  moreover have "url_parse (ParseIPLiteral D) (C_UniversalLinkBase (e_cfg e) @ CHR ''?'' # ?q)
      = Some (b\<lparr>U_RawQuery := ?q\<rparr>)"
    using assms(3-6) by (intro url_parse_with_query enc_clean) simp_all
  ultimately show ?thesis
    using invocation_query [of e "S_ID s"] by (auto simp: zero_invocation_def invocation_values_def)
qed

theorem invocation_round_trip_witness:
  "\<exists>s iv w' u q. NewSession sample_deps sample_engine sample_spec sample_world = (Inr (s, iv), w')
    \<and> url_parse (ParseIPLiteral sample_deps) (I_SchemeURI iv) = Some u \<and> U_RawQuery u = q
    \<and> parse_query q = Some [(''client_id'', ''x509_san_dns:v.example''),
        (''request_uri'', ''https://v.example/request/'' @ S_ID s), (''request_uri_method'', ''get'')]"
proof -
  obtain s iv w' where
    ok: "NewSession sample_deps sample_engine sample_spec sample_world = (Inr (s, iv), w')"
    by (rule sample_new_session)
  have flow: "S_Flow s \<noteq> DCAPI"
    using ok by (auto elim!: NewSession_Inr simp: make_session_def sample_spec_def flow_defs)
  have e: "e_clientID sample_engine = ''x509_san_dns:v.example''"
      "request_uri sample_engine i = ''https://v.example/request/'' @ i" for i
    by (simp_all add: sample_defs ClientIDPrefixX509SANDNS_def request_uri_def trim_slash_def)
  obtain b where "url_parse (ParseIPLiteral sample_deps) ''https://w.example/authorize'' = Some b"
      "U_Scheme b = ''https''"
    using built_base [OF sample_built] by (auto simp: sample_base https_base_def)
  from invocation_round_trip [OF ok flow, unfolded sample_base, OF this] ok show ?thesis
    by (fastforce simp: e)
qed

text \<open>
  A base that ends in a question mark passes the check of \<open>New\<close> (its query is empty), and then the
  link is broken: the wallet reads a query in which there is no client id.
\<close>

theorem universal_link_question_mark:
  assumes "https_base D raw" and "CHR ''?'' \<notin> set raw" and "CHR ''#'' \<notin> set raw"
  shows "https_base D (raw @ ''?'')
    \<and> (\<exists>u vs. url_parse (ParseIPLiteral D) ((raw @ ''?'') @ ''?'' @ values_encode (invocation_values e sid))
          = Some u
        \<and> parse_query (U_RawQuery u) = Some vs \<and> values_get vs ''client_id'' = [])"
proof -
  obtain u where u: "url_parse (ParseIPLiteral D) raw = Some u" "U_Scheme u = ''https''"
      "U_Host u \<noteq> []" "U_Fragment u = []"
    using assms(1) by (auto simp: https_base_def)
  have "url_parse (ParseIPLiteral D) (raw @ CHR ''?'' # []) = Some (u\<lparr>U_RawQuery := []\<rparr>)"
    using assms(2,3) u(1,2) by (intro url_parse_with_query) simp_all
  then have base: "https_base D (raw @ ''?'')" using u by (auto simp: https_base_def)
  let ?enc = "values_encode (invocation_values e sid)"
  have link: "url_parse (ParseIPLiteral D) (raw @ CHR ''?'' # CHR ''?'' # ?enc)
      = Some (u\<lparr>U_RawQuery := CHR ''?'' # ?enc\<rparr>)"
    using assms(2,3) u(1,2) enc_clean by (intro url_parse_with_query) (simp_all add: ctl_byte_def)
  define r where "r = join_amp (map encode_pair (tl (invocation_values e sid)))"
  have enc: "?enc = (query_escape ''client_id'' @ ''='' @ query_escape (e_clientID e)) @ CHR ''&'' # r"
    unfolding values_encode_def sort_invocation
    by (simp add: r_def invocation_values_def encode_pair_def)
  have "parse_query r = Some (tl (invocation_values e sid))" by (simp add: r_def parse_query_join)
  then have "parse_query (CHR ''?'' # ?enc)
      = Some ((''?client_id'', e_clientID e) # tl (invocation_values e sid))"
    unfolding enc by (subst parse_query_question) (simp_all add: query_escape_round_trip query_escape_no_sep)
  moreover have "values_get ((''?client_id'', e_clientID e) # tl (invocation_values e sid)) ''client_id'' = []"
    by (simp add: values_get_def values_all_def invocation_values_def)
  ultimately show ?thesis using base link by auto
qed

theorem universal_link_question_mark_witness:
  "https_base sample_deps ''https://w.example/authorize?''"
  using universal_link_question_mark [OF built_base [OF sample_built]]
  by (simp add: sample_base)

end
