(* ===== verification/Response.thy ===== *)
theory Response
  imports Request_Object
begin

text \<open>
  Response processing: \<open>direct_post.jwt\<close> (\<open>response.go\<close>) and the Digital Credentials API
  (\<open>ProcessDCAPIResponse\<close> in \<open>dcapi.go\<close>), which share the agreement-info check, the payload parser
  and the mapping of the \<open>vp_token\<close> to presentations.
\<close>

section \<open>Presentations\<close>

record presentation =
  P_QueryCredID :: string
  P_Format :: string
  P_Payload :: bytes
  P_Nonce :: string
  P_ClientID :: string
  P_ResponseURI :: string
  P_Origin :: string
  P_JWKThumbprint :: bytes

definition maxVPTokenKeyLen :: nat where "maxVPTokenKeyLen = 64"
definition maxWalletErrorLen :: nat where "maxWalletErrorLen = 256"

text \<open>The three bytes of the ellipsis in UTF-8.\<close>

definition ellipsis :: bytes where
  "ellipsis = [CHR 0xE2, CHR 0x80, CHR 0xA6]"

definition clip :: "string \<Rightarrow> nat \<Rightarrow> string" where
  "clip s n = (if length s > n then take n s @ ellipsis else s)"

section \<open>Wallet errors and agreement info\<close>

definition walletErrorFrom :: "('q, 'r) session \<Rightarrow> url_values \<Rightarrow> err" where
  "walletErrorFrom s vals =
     (let st = values_get vals ''state'' in
      if st \<noteq> [] \<and> st \<noteq> S_State s then Sentinel ErrStateMismatch
      else WalletError \<lparr>WE_Code = clip (values_get vals ''error'') maxWalletErrorLen,
             WE_Description = clip (values_get vals ''error_description'') maxWalletErrorLen\<rparr>)"

definition checkAgreementInfo :: "(string \<rightharpoonup> jvalue) \<Rightarrow> ('q, 'r) session \<Rightarrow> err option" where
  "checkAgreementInfo hdr s =
     (case hdr ''apv'' of
        None \<Rightarrow> None
      | Some (JStr v) \<Rightarrow>
          (case b64_decode v of
             None \<Rightarrow> Some (failq ErrMalformedResponse [])
           | Some raw \<Rightarrow> if raw \<noteq> S_Nonce s then Some (Sentinel ErrAPVMismatch) else None)
      | Some _ \<Rightarrow> Some (failq ErrMalformedResponse []))"

section \<open>The decrypted payload\<close>

record response_payload =
  rp_VPToken :: "raw_map option"
  rp_State :: string

text \<open>Members of the payload struct, in the order of the document; unknown members are skipped.\<close>

fun payload_members :: "(bytes \<times> jvalue) list \<Rightarrow> response_payload \<Rightarrow> response_payload option" where
  "payload_members [] p = Some p"
| "payload_members ((k, v) # ms) p =
     (if field_match k ''vp_token'' then
        (case into_raw_map v (rp_VPToken p) of
           None \<Rightarrow> None
         | Some m \<Rightarrow> payload_members ms (p\<lparr>rp_VPToken := m\<rparr>))
      else if field_match k ''state'' then
        (case into_string v (rp_State p) of
           None \<Rightarrow> None
         | Some st \<Rightarrow> payload_members ms (p\<lparr>rp_State := st\<rparr>))
      else payload_members ms p)"

definition zero_payload :: response_payload where
  "zero_payload = \<lparr>rp_VPToken = None, rp_State = []\<rparr>"

definition decode_payload :: "jvalue \<Rightarrow> response_payload option" where
  "decode_payload v =
     (case v of
        JNull \<Rightarrow> Some zero_payload
      | JObj ms \<Rightarrow> payload_members ms zero_payload
      | _ \<Rightarrow> None)"

definition vp_entries :: "response_payload \<Rightarrow> raw_map" where
  "vp_entries p = (case rp_VPToken p of None \<Rightarrow> [] | Some m \<Rightarrow> m)"

definition parseResponsePayload :: "bytes \<Rightarrow> err + response_payload" where
  "parseResponsePayload plain =
     (case json_prefix plain of
        None \<Rightarrow> Inl (failq ErrMalformedResponse [])
      | Some (v, rest) \<Rightarrow>
          (case decode_payload v of
             None \<Rightarrow> Inl (failq ErrMalformedResponse [])
           | Some p \<Rightarrow>
               if json_more rest then Inl (failq ErrMalformedResponse [])
               else if vp_entries p = [] then Inl (failq ErrMalformedResponse [])
               else Inr p))"

section \<open>From the vp_token to presentations\<close>

text \<open>\<open>formats\<close>: a later credential query with the same id overwrites an earlier one.\<close>

definition query_formats :: "('q, 'r) deps \<Rightarrow> ('q, 'r) session \<Rightarrow> string \<rightharpoonup> string" where
  "query_formats D s =
     map_of (rev (map (\<lambda>c. (cq_ID c, cq_Format c)) (Credentials D (S_Query s))))"

definition present_entry ::
    "('q, 'r) deps \<Rightarrow> ('q, 'r) session \<Rightarrow> bytes \<Rightarrow> string \<Rightarrow> string \<Rightarrow> bytes \<Rightarrow> err + presentation" where
  "present_entry D s thumb cid format entry =
     (if entry = [] then Inl (failq ErrMalformedResponse [clip cid maxVPTokenKeyLen])
      else
        (let p = \<lparr>P_QueryCredID = cid, P_Format = format, P_Payload = entry, P_Nonce = S_Nonce s,
                  P_ClientID = S_ClientID s, P_ResponseURI = S_ResponseURI s, P_Origin = [],
                  P_JWKThumbprint = []\<rparr> in
         if format = FormatMdoc D then
           (case b64_decode entry of
              None \<Rightarrow> Inl (failq ErrMalformedResponse [clip cid maxVPTokenKeyLen])
            | Some raw \<Rightarrow> Inr (p\<lparr>P_Payload := raw, P_JWKThumbprint := thumb\<rparr>))
         else Inr p))"

definition present_id ::
    "('q, 'r) deps \<Rightarrow> ('q, 'r) session \<Rightarrow> raw_map \<Rightarrow> bytes \<Rightarrow> string \<Rightarrow> err + presentation list" where
  "present_id D s vpToken thumb cid =
     (case query_formats D s cid of
        None \<Rightarrow> Inl (failq ErrUnknownCredentialID [clip cid maxVPTokenKeyLen])
      | Some format \<Rightarrow>
          (case Option.bind (map_of vpToken cid) into_strings of
             None \<Rightarrow> Inl (failq ErrMalformedResponse [clip cid maxVPTokenKeyLen])
           | Some [] \<Rightarrow> Inl (failq ErrMalformedResponse [clip cid maxVPTokenKeyLen])
           | Some entries \<Rightarrow> mapR (present_entry D s thumb cid format) entries))"

definition presentationsFromVPToken ::
    "('q, 'r) deps \<Rightarrow> ('q, 'r) session \<Rightarrow> raw_map \<Rightarrow> bytes \<Rightarrow> err + presentation list" where
  "presentationsFromVPToken D s vpToken thumb =
     (case mapR (present_id D s vpToken thumb) (sort (map fst vpToken)) of
        Inl er \<Rightarrow> Inl er
      | Inr pss \<Rightarrow> Inr (concat pss))"

section \<open>Decryption\<close>

text \<open>
  The steps from the JWE to the parsed payload and the thumbprint of the session's own key, which
  both flows take in the same order.
\<close>

definition open_response ::
    "('q, 'r) deps \<Rightarrow> ('q, 'r) session \<Rightarrow> bytes \<Rightarrow> err + (response_payload \<times> bytes)" where
  "open_response D s jwe =
     (case ephemeralPrivateKey D s of
        Inl er \<Rightarrow> Inl er
      | Inr priv \<Rightarrow>
          (case DecryptJWE D [S_ID s \<mapsto> priv] (S_ID s) jwe of
             Inl er \<Rightarrow> Inl (failw ErrDecrypt (Foreign er))
           | Inr (plain, hdr) \<Rightarrow>
               (case checkAgreementInfo hdr s of
                  Some er \<Rightarrow> Inl er
                | None \<Rightarrow>
                    (case JWKThumbprintBytes D (sk_public priv) of
                       Inl er \<Rightarrow> Inl (failw ErrSessionInvalid (Foreign er))
                     | Inr thumb \<Rightarrow>
                         (case parseResponsePayload plain of
                            Inl er \<Rightarrow> Inl er
                          | Inr payload \<Rightarrow> Inr (payload, thumb))))))"

section \<open>direct_post.jwt\<close>

definition ProcessResponse ::
    "('q, 'r) deps \<Rightarrow> engine \<Rightarrow> ('q, 'r) session option \<Rightarrow> bytes \<Rightarrow> world
     \<Rightarrow> (err + presentation list \<times> string) \<times> ('q, 'r) session option \<times> world" where
  "ProcessResponse D e so body w =
     (case so of
        None \<Rightarrow> (Inl (Sentinel ErrSessionInvalid), so, w)
      | Some s \<Rightarrow>
          if S_Flow s = DCAPI then (Inl (failq ErrFlowMismatch []), so, w)
          else if \<not> S_Consumed s then (Inl (Sentinel ErrSessionNotConsumed), so, w)
          else
            (case tick (e_clock e) w of
               (now, w1) \<Rightarrow>
                 if \<not> live_at now s then (Inl (Sentinel ErrSessionExpired), so, w1)
                 else if int (length body) > C_MaxResponseBody (e_cfg e) then
                   (Inl (Sentinel ErrBodyTooLarge), so, w1)
                 else
                   (case ParseQuery body of
                      None \<Rightarrow> (Inl (failq ErrMalformedResponse []), so, w1)
                    | Some vals \<Rightarrow>
                        if values_get vals ''error'' \<noteq> [] then (Inl (walletErrorFrom s vals), so, w1)
                        else
                          (case values_all vals ''response'' of
                             [jwe] \<Rightarrow>
                               if jwe = [] then (Inl (failq ErrMalformedResponse []), so, w1)
                               else
                                 (case open_response D s jwe of
                                    Inl er \<Rightarrow> (Inl er, so, w1)
                                  | Inr (payload, thumb) \<Rightarrow>
                                      if rp_State payload \<noteq> S_State s then
                                        (Inl (Sentinel ErrStateMismatch), so, w1)
                                      else
                                        (case presentationsFromVPToken D s (vp_entries payload) thumb of
                                           Inl er \<Rightarrow> (Inl er, so, w1)
                                         | Inr prs \<Rightarrow>
                                             if S_Flow s = SameDevice then
                                               (case randToken (e_rand e) tokenBytes w1 of
                                                  (Inl er, w2) \<Rightarrow> (Inl er, so, w2)
                                                | (Inr c, w2) \<Rightarrow>
                                                    (Inr (prs, c),
                                                     Some (s\<lparr>S_ResponseCode := c,
                                                             S_ResponseCodeUsed := False\<rparr>), w2))
                                             else (Inr (prs, []), so, w1)))
                           | _ \<Rightarrow> (Inl (failq ErrMalformedResponse []), so, w1)))))"

section \<open>Digital Credentials API\<close>

fun dcapi_members :: "(bytes \<times> jvalue) list \<Rightarrow> string \<Rightarrow> string option" where
  "dcapi_members [] r = Some r"
| "dcapi_members ((k, v) # ms) r =
     (if field_match k ''response'' then
        (case into_string v r of None \<Rightarrow> None | Some r' \<Rightarrow> dcapi_members ms r')
      else dcapi_members ms r)"

definition decode_dcapi_body :: "bytes \<Rightarrow> string option" where
  "decode_dcapi_body data =
     (case json_prefix data of
        None \<Rightarrow> None
      | Some (JNull, _) \<Rightarrow> Some []
      | Some (JObj ms, _) \<Rightarrow> dcapi_members ms []
      | Some _ \<Rightarrow> None)"

definition ProcessDCAPIResponse ::
    "('q, 'r) deps \<Rightarrow> engine \<Rightarrow> ('q, 'r) session option \<Rightarrow> string \<Rightarrow> bytes \<Rightarrow> world
     \<Rightarrow> (err + presentation list) \<times> world" where
  "ProcessDCAPIResponse D e so origin data w =
     (case so of
        None \<Rightarrow> (Inl (Sentinel ErrSessionInvalid), w)
      | Some s \<Rightarrow>
          if S_Flow s \<noteq> DCAPI then (Inl (failq ErrFlowMismatch []), w)
          else if \<not> S_Consumed s then (Inl (Sentinel ErrSessionNotConsumed), w)
          else
            (case tick (e_clock e) w of
               (now, w1) \<Rightarrow>
                 if \<not> live_at now s then (Inl (Sentinel ErrSessionExpired), w1)
                 else if origin \<notin> set (S_ExpectedOrigins s) then
                   (Inl (Sentinel ErrOriginNotExpected), w1)
                 else if int (length data) > C_MaxResponseBody (e_cfg e) then
                   (Inl (Sentinel ErrBodyTooLarge), w1)
                 else
                   (case decode_dcapi_body data of
                      None \<Rightarrow> (Inl (failq ErrMalformedResponse []), w1)
                    | Some resp \<Rightarrow>
                        if resp = [] then (Inl (failq ErrMalformedResponse []), w1)
                        else
                          (case open_response D s resp of
                             Inl er \<Rightarrow> (Inl er, w1)
                           | Inr (payload, thumb) \<Rightarrow>
                               (case presentationsFromVPToken D s (vp_entries payload) thumb of
                                  Inl er \<Rightarrow> (Inl er, w1)
                                | Inr prs \<Rightarrow>
                                    (Inr (map (\<lambda>p. p\<lparr>P_Origin := origin\<rparr>) prs), w1))))))"

section \<open>Clipping\<close>

lemma clip_length: "length (clip s n) \<le> n + 3"
  by (simp add: clip_def ellipsis_def)

section \<open>Presentations by reference\<close>

text \<open>The same mapping without error handling: which tokens are acceptable, and what they become.\<close>

definition entries_of :: "raw_map \<Rightarrow> string \<Rightarrow> bytes list" where
  "entries_of m cid = (case Option.bind (map_of m cid) into_strings of None \<Rightarrow> [] | Some es \<Rightarrow> es)"

definition is_mdoc :: "('q, 'r) deps \<Rightarrow> ('q, 'r) session \<Rightarrow> string \<Rightarrow> bool" where
  "is_mdoc D s cid \<longleftrightarrow> query_formats D s cid = Some (FormatMdoc D)"

definition entry_ok :: "('q, 'r) deps \<Rightarrow> ('q, 'r) session \<Rightarrow> string \<Rightarrow> bytes \<Rightarrow> bool" where
  "entry_ok D s cid entry \<longleftrightarrow> entry \<noteq> [] \<and> (is_mdoc D s cid \<longrightarrow> b64_decode entry \<noteq> None)"

definition id_ok :: "('q, 'r) deps \<Rightarrow> ('q, 'r) session \<Rightarrow> raw_map \<Rightarrow> string \<Rightarrow> bool" where
  "id_ok D s m cid \<longleftrightarrow> query_formats D s cid \<noteq> None \<and> entries_of m cid \<noteq> []
     \<and> (\<forall>entry \<in> set (entries_of m cid). entry_ok D s cid entry)"

definition vp_ok :: "('q, 'r) deps \<Rightarrow> ('q, 'r) session \<Rightarrow> raw_map \<Rightarrow> bool" where
  "vp_ok D s m \<longleftrightarrow> (\<forall>cid \<in> fst ` set m. id_ok D s m cid)"

definition presentation_of ::
    "('q, 'r) deps \<Rightarrow> ('q, 'r) session \<Rightarrow> bytes \<Rightarrow> string \<Rightarrow> bytes \<Rightarrow> presentation" where
  "presentation_of D s thumb cid entry =
     \<lparr>P_QueryCredID = cid, P_Format = the (query_formats D s cid),
      P_Payload = (if is_mdoc D s cid then the (b64_decode entry) else entry),
      P_Nonce = S_Nonce s, P_ClientID = S_ClientID s, P_ResponseURI = S_ResponseURI s,
      P_Origin = [], P_JWKThumbprint = (if is_mdoc D s cid then thumb else [])\<rparr>"

definition presentations_of ::
    "('q, 'r) deps \<Rightarrow> ('q, 'r) session \<Rightarrow> raw_map \<Rightarrow> bytes \<Rightarrow> presentation list" where
  "presentations_of D s m thumb =
     [presentation_of D s thumb cid entry. cid \<leftarrow> sort (map fst m), entry \<leftarrow> entries_of m cid]"

lemma present_entry_iff:
  "query_formats D s cid = Some fmt \<Longrightarrow>
     present_entry D s thumb cid fmt entry = Inr p
       \<longleftrightarrow> entry_ok D s cid entry \<and> p = presentation_of D s thumb cid entry"
  by (auto simp: present_entry_def entry_ok_def presentation_of_def is_mdoc_def Let_def
      split: option.splits if_splits)

lemma present_id_iff:
  "present_id D s m thumb cid = Inr ps
     \<longleftrightarrow> id_ok D s m cid \<and> ps = map (presentation_of D s thumb cid) (entries_of m cid)"
proof (cases "query_formats D s cid")
  case None
  then show ?thesis by (simp add: present_id_def id_ok_def)
next
  case (Some fmt)
  have loop: "mapR (present_entry D s thumb cid fmt) es = Inr ps
      \<longleftrightarrow> list_all (entry_ok D s cid) es \<and> ps = map (presentation_of D s thumb cid) es" for es
    by (rule mapR_iff) (rule present_entry_iff [OF Some])
  show ?thesis
    by (cases "Option.bind (map_of m cid) into_strings")
      (auto simp: present_id_def id_ok_def entries_of_def Some loop list_all_iff
        simp del: mapR.simps split: list.splits)
qed

lemma presentations_iff:
  "presentationsFromVPToken D s m thumb = Inr prs
     \<longleftrightarrow> vp_ok D s m \<and> prs = presentations_of D s m thumb"
proof -
  let ?cs = "sort (map fst m)"
  let ?pss = "map (\<lambda>cid. map (presentation_of D s thumb cid) (entries_of m cid)) ?cs"
  have loop: "mapR (present_id D s m thumb) ?cs = Inr pss
      \<longleftrightarrow> list_all (id_ok D s m) ?cs \<and> pss = ?pss" for pss
    by (rule mapR_iff) (rule present_id_iff)
  have ok: "vp_ok D s m \<longleftrightarrow> list_all (id_ok D s m) ?cs" by (simp add: vp_ok_def list_all_iff)
  have ref: "presentations_of D s m thumb = concat ?pss" by (simp add: presentations_of_def)
  have "presentationsFromVPToken D s m thumb = Inr prs
      \<longleftrightarrow> (\<exists>pss. mapR (present_id D s m thumb) ?cs = Inr pss \<and> prs = concat pss)"
    by (auto simp: presentationsFromVPToken_def split: sum.splits)
  also have "\<dots> \<longleftrightarrow> vp_ok D s m \<and> prs = presentations_of D s m thumb"
    unfolding loop ok ref by blast
  finally show ?thesis .
qed

text \<open>Errors of the mapping: one sentinel each, and one clipped key.\<close>

definition vp_err :: "err \<Rightarrow> bool" where
  "vp_err er \<longleftrightarrow> errors_as_wallet er = None
     \<and> (\<exists>s \<in> {ErrUnknownCredentialID, ErrMalformedResponse}. sentinels er = [s])
     \<and> (\<forall>q \<in> set (quoted er). length q \<le> 67)"

lemma vp_err_intros [intro, simp]:
  "vp_err (failq ErrMalformedResponse [])"
  "vp_err (failq ErrMalformedResponse [clip cid maxVPTokenKeyLen])"
  "vp_err (failq ErrUnknownCredentialID [clip cid maxVPTokenKeyLen])"
  using clip_length [of cid 64] by (simp_all add: vp_err_def maxVPTokenKeyLen_def)

lemma presentations_err: "presentationsFromVPToken D s m thumb = Inl er \<Longrightarrow> vp_err er"
  by (auto simp: presentationsFromVPToken_def present_id_def present_entry_def Let_def
      split: sum.splits option.splits list.splits if_splits dest!: mapR_Inl_D)

lemma parseResponsePayload_err: "parseResponsePayload plain = Inl er \<Longrightarrow> vp_err er"
  by (auto simp: parseResponsePayload_def split: option.splits prod.splits if_splits)

section \<open>The payload\<close>

lemma fold_update_distinct:
  "distinct (map fst m) \<Longrightarrow> distinct (map fst (fold (\<lambda>(k, x) m. AList.update k x m) ms m))"
  by (induction ms arbitrary: m) (auto simp: distinct_update)

definition distinct_payload :: "response_payload \<Rightarrow> bool" where
  "distinct_payload p \<longleftrightarrow> distinct (map fst (vp_entries p))"

lemma into_raw_map_distinct:
  "into_raw_map v (rp_VPToken p) = Some m \<Longrightarrow> distinct_payload p \<Longrightarrow> distinct_payload (p\<lparr>rp_VPToken := m\<rparr>)"
  by (auto simp: into_raw_map_def distinct_payload_def vp_entries_def fold_update_distinct
      split: jvalue.splits option.splits)

lemma distinct_payload_state [simp]: "distinct_payload (p\<lparr>rp_State := st\<rparr>) = distinct_payload p"
  by (simp add: distinct_payload_def vp_entries_def)

lemma payload_members_distinct:
  "payload_members ms p = Some p' \<Longrightarrow> distinct_payload p \<Longrightarrow> distinct_payload p'"
proof (induction ms p rule: payload_members.induct)
  case (2 k v ms p)
  then show ?case
    by (auto split: if_splits option.splits dest: into_raw_map_distinct)
qed simp

lemma parseResponsePayload_Inr:
  "parseResponsePayload plain = Inr p \<Longrightarrow> distinct (map fst (vp_entries p)) \<and> vp_entries p \<noteq> []"
  using payload_members_distinct [of _ zero_payload p]
  by (auto simp: parseResponsePayload_def decode_payload_def distinct_payload_def zero_payload_def
      vp_entries_def split: option.splits prod.splits jvalue.splits if_splits)

section \<open>Opening a response\<close>

text \<open>The agreement info, where the JWE header has it, is the session's nonce.\<close>

definition apv_ok :: "(string \<rightharpoonup> jvalue) \<Rightarrow> string \<Rightarrow> bool" where
  "apv_ok hdr nonce \<longleftrightarrow>
     hdr ''apv'' = None \<or> (\<exists>v. hdr ''apv'' = Some (JStr v) \<and> b64_decode v = Some nonce)"

lemma checkAgreementInfo_None: "checkAgreementInfo hdr s = None \<longleftrightarrow> apv_ok hdr (S_Nonce s)"
  by (auto simp: checkAgreementInfo_def apv_ok_def split: option.splits jvalue.splits)

lemma open_response_Inr:
  "open_response D s jwe = Inr (payload, thumb) \<longleftrightarrow>
     (\<exists>priv plain hdr. ephemeralPrivateKey D s = Inr priv
        \<and> DecryptJWE D [S_ID s \<mapsto> priv] (S_ID s) jwe = Inr (plain, hdr) \<and> apv_ok hdr (S_Nonce s)
        \<and> JWKThumbprintBytes D (sk_public priv) = Inr thumb
        \<and> parseResponsePayload plain = Inr payload)"
  by (auto simp: open_response_def checkAgreementInfo_None [symmetric]
      split: sum.splits prod.splits option.splits)

section \<open>Who is to blame\<close>

text \<open>
  An error that the wallet can cause: a client error, that quotes little of its own accord. What decryption
  with the session's key says of a response is wrapped as it is.
\<close>

definition decryption_text :: "('q, 'r) deps \<Rightarrow> ('q, 'r) session \<Rightarrow> string \<Rightarrow> bool" where
  "decryption_text D s q \<longleftrightarrow> (\<exists>priv jwe. ephemeralPrivateKey D s = Inr priv
     \<and> DecryptJWE D [S_ID s \<mapsto> priv] (S_ID s) jwe = Inl q)"

definition wallet_caused :: "('q, 'r) deps \<Rightarrow> ('q, 'r) session \<Rightarrow> err \<Rightarrow> bool" where
  "wallet_caused D s er \<longleftrightarrow> fst (ErrorResponse (Some er)) \<in> {400, 404}
     \<and> (\<forall>q \<in> set (quoted er). length q \<le> 67
          \<or> decryption_text D s q \<and> er = failw ErrDecrypt (Foreign q))
     \<and> (\<forall>we. errors_as_wallet er = Some we
          \<longrightarrow> length (WE_Code we) \<le> 259 \<and> length (WE_Description we) \<le> 259)"

lemma wallet_caused_single:
  "sentinels er = [t] \<Longrightarrow> errors_as_wallet er = None \<Longrightarrow> status_spec t \<in> {400, 404} \<Longrightarrow>
     (\<forall>q \<in> set (quoted er). length q \<le> 67 \<or> decryption_text D s q \<and> er = failw ErrDecrypt (Foreign q))
     \<Longrightarrow> wallet_caused D s er"
  by (simp add: wallet_caused_def ErrorResponse_single)

lemma wallet_caused_plain:
  "status_spec t \<in> {400, 404} \<Longrightarrow> wallet_caused D s (Sentinel t)"
  "status_spec t \<in> {400, 404} \<Longrightarrow> wallet_caused D s (failq t [])"
  by (rule wallet_caused_single [where t = t]; simp)+

lemma wallet_caused_intros:
  "wallet_caused D s (Sentinel ErrSessionExpired)" "wallet_caused D s (Sentinel ErrBodyTooLarge)"
  "wallet_caused D s (Sentinel ErrStateMismatch)" "wallet_caused D s (Sentinel ErrAPVMismatch)"
  "wallet_caused D s (Sentinel ErrOriginNotExpected)" "wallet_caused D s (failq ErrMalformedResponse [])"
  "wallet_caused D s (failq ErrFlowMismatch [])"
  by (simp_all add: wallet_caused_plain status_spec_def)

lemma decryption_caused:
  "ephemeralPrivateKey D s = Inr priv \<Longrightarrow> DecryptJWE D [S_ID s \<mapsto> priv] (S_ID s) jwe = Inl f \<Longrightarrow>
     wallet_caused D s (failw ErrDecrypt (Foreign f))"
  by (rule wallet_caused_single [where t = ErrDecrypt]) (auto simp: status_spec_def decryption_text_def)

lemma vp_err_wallet: "vp_err er \<Longrightarrow> wallet_caused D s er"
  unfolding vp_err_def using wallet_caused_single [of er _ D s] by (auto simp: status_spec_def)

lemma walletErrorFrom_wallet: "wallet_caused D s (walletErrorFrom s' vals)"
  using clip_length [of _ maxWalletErrorLen] wallet_caused_intros(3)
  by (auto simp: walletErrorFrom_def Let_def wallet_caused_def ErrorResponse_def maxWalletErrorLen_def)

lemma agreement_err: "checkAgreementInfo hdr s' = Some er \<Longrightarrow> wallet_caused D s er"
  by (auto simp: checkAgreementInfo_def intro: wallet_caused_intros
      split: option.splits jvalue.splits if_splits)

lemma open_response_err:
  assumes "open_response D s jwe = Inl er" and "ephemeralPrivateKey D s = Inr priv"
    and "JWKThumbprintBytes D (sk_public priv) = Inr thumb"
  shows "wallet_caused D s er"
  using assms
  by (auto simp: open_response_def intro: wallet_caused_intros decryption_caused agreement_err vp_err_wallet
      parseResponsePayload_err split: sum.splits prod.splits option.splits)

section \<open>Both processors as one condition\<close>

text \<open>
  What a \<open>direct_post.jwt\<close> request must be for its session: \<open>payload\<close> is what it decrypts to, \<open>thumb\<close>
  the thumbprint of the key it was encrypted to.
\<close>

definition acceptable ::
    "('q, 'r) deps \<Rightarrow> engine \<Rightarrow> ('q, 'r) session \<Rightarrow> go_time \<Rightarrow> bytes \<Rightarrow> response_payload \<Rightarrow> bytes \<Rightarrow> bool" where
  "acceptable D e s now body payload thumb \<longleftrightarrow>
     S_Flow s \<noteq> DCAPI \<and> S_Consumed s \<and> now < S_ExpiresAt s
     \<and> int (length body) \<le> C_MaxResponseBody (e_cfg e)
     \<and> (\<exists>vals jwe. ParseQuery body = Some vals \<and> values_get vals ''error'' = []
          \<and> values_all vals ''response'' = [jwe] \<and> jwe \<noteq> []
          \<and> open_response D s jwe = Inr (payload, thumb))
     \<and> rp_State payload = S_State s \<and> vp_ok D s (vp_entries payload)"

abbreviation tick_once :: "world \<Rightarrow> world" where
  "tick_once w \<equiv> w\<lparr>w_ticks := Suc (w_ticks w)\<rparr>"

lemma ProcessResponse_Inr:
  assumes "ProcessResponse D e (Some s) body w = (Inr (prs, c), so', w')"
  obtains payload thumb where "acceptable D e s (e_clock e (w_ticks w)) body payload thumb"
    "prs = presentations_of D s (vp_entries payload) thumb"
    "if S_Flow s = SameDevice
     then randToken (e_rand e) tokenBytes (tick_once w) = (Inr c, w')
       \<and> so' = Some (s\<lparr>S_ResponseCode := c, S_ResponseCodeUsed := False\<rparr>)
     else c = [] \<and> so' = Some s \<and> w' = tick_once w"
proof -
  from assms obtain vals jwe payload thumb where 1: "S_Flow s \<noteq> DCAPI" "S_Consumed s"
      "live_at (e_clock e (w_ticks w)) s" "\<not> int (length body) > C_MaxResponseBody (e_cfg e)"
      "ParseQuery body = Some vals" "values_get vals ''error'' = []"
      "values_all vals ''response'' = [jwe]" "jwe \<noteq> []"
      "open_response D s jwe = Inr (payload, thumb)" "rp_State payload = S_State s"
      "presentationsFromVPToken D s (vp_entries payload) thumb = Inr prs"
    and 2: "if S_Flow s = SameDevice
       then randToken (e_rand e) tokenBytes (tick_once w) = (Inr c, w')
         \<and> so' = Some (s\<lparr>S_ResponseCode := c, S_ResponseCodeUsed := False\<rparr>)
       else c = [] \<and> so' = Some s \<and> w' = tick_once w"
    by (auto simp: ProcessResponse_def tick_def
        split: if_splits option.splits list.splits sum.splits prod.splits)
  from 1 have "acceptable D e s (e_clock e (w_ticks w)) body payload thumb"
      "prs = presentations_of D s (vp_entries payload) thumb"
    by (auto simp: acceptable_def live_at_def presentations_iff)
  from that [OF this 2] show ?thesis .
qed

lemma ProcessResponse_acceptable:
  assumes "acceptable D e s (e_clock e (w_ticks w)) body payload thumb"
  shows "ProcessResponse D e (Some s) body w =
    (let prs = presentations_of D s (vp_entries payload) thumb in
     if S_Flow s = SameDevice then
       (case randToken (e_rand e) tokenBytes (tick_once w) of
          (Inl er, w2) \<Rightarrow> (Inl er, Some s, w2)
        | (Inr c, w2) \<Rightarrow>
            (Inr (prs, c), Some (s\<lparr>S_ResponseCode := c, S_ResponseCodeUsed := False\<rparr>), w2))
     else (Inr (prs, []), Some s, tick_once w))"
proof -
  obtain vals jwe where 1: "S_Flow s \<noteq> DCAPI" "S_Consumed s"
      "live_at (e_clock e (w_ticks w)) s" "\<not> C_MaxResponseBody (e_cfg e) < int (length body)"
      "ParseQuery body = Some vals" "values_get vals ''error'' = []"
      "values_all vals ''response'' = [jwe]" "jwe \<noteq> []"
      "open_response D s jwe = Inr (payload, thumb)" "rp_State payload = S_State s"
      "vp_ok D s (vp_entries payload)"
    using assms by (auto simp: acceptable_def live_at_def not_less)
  from 1(11) have "presentationsFromVPToken D s (vp_entries payload) thumb
      = Inr (presentations_of D s (vp_entries payload) thumb)"
    by (simp add: presentations_iff)
  with 1 show ?thesis by (simp add: ProcessResponse_def tick_def Let_def)
qed

lemma ProcessResponse_Inl: "ProcessResponse D e so body w = (Inl er, so', w') \<Longrightarrow> so' = so"
  by (auto simp: ProcessResponse_def split: if_splits option.splits list.splits sum.splits prod.splits)

lemma ProcessResponse_err:
  assumes "ProcessResponse D e (Some s) body w = (Inl er, so', w')" and "S_Consumed s"
    and "ephemeralPrivateKey D s = Inr priv" and "JWKThumbprintBytes D (sk_public priv) = Inr thumb"
    and "\<forall>p. e_rand e p \<noteq> None"
  shows "wallet_caused D s er"
proof -
  have rand: "randToken (e_rand e) n w1 \<noteq> (Inl er', w2)" for n w1 er' w2
  proof -
    obtain tok w3 where "randToken (e_rand e) n w1 = (Inr tok, w3)"
      using randToken_total [OF assms(5)] by blast
    then show ?thesis by simp
  qed
  from assms(1,2) show ?thesis
    by (auto simp: ProcessResponse_def tick_def rand intro: wallet_caused_intros walletErrorFrom_wallet
        vp_err_wallet presentations_err open_response_err [OF _ assms(3,4)]
        split: if_splits option.splits list.splits sum.splits prod.splits)
qed

text \<open>An error of decryption comes from the response in the body.\<close>

lemma open_response_decryption:
  "open_response D s jwe = Inl (failw ErrDecrypt (Foreign q)) \<Longrightarrow> ephemeralPrivateKey D s = Inr priv \<Longrightarrow>
     DecryptJWE D [S_ID s \<mapsto> priv] (S_ID s) jwe = Inl q"
  by (auto simp: open_response_def failw_def failq_def checkAgreementInfo_def vp_err_def
      split: sum.splits prod.splits option.splits jvalue.splits if_splits dest!: parseResponsePayload_err)

lemma decryption_error_source:
  assumes "ProcessResponse D e (Some s) body w = (Inl (failw ErrDecrypt (Foreign q)), so', w')"
    and "ephemeralPrivateKey D s = Inr priv"
  shows "\<exists>vals jwe. ParseQuery body = Some vals \<and> values_all vals ''response'' = [jwe]
    \<and> DecryptJWE D [S_ID s \<mapsto> priv] (S_ID s) jwe = Inl q"
proof -
  have no: "presentationsFromVPToken D s m thumb \<noteq> Inl (failw ErrDecrypt (Foreign q))"
    "randToken r n w1 \<noteq> (Inl (failw ErrDecrypt (Foreign q)), w2)" for m thumb r n w1 w2
    by (auto simp: vp_err_def randToken_def failw_def split: option.splits prod.splits dest!: presentations_err)
  show ?thesis
    using assms(1) no
    by (auto simp: ProcessResponse_def walletErrorFrom_def Let_def
        dest!: open_response_decryption [OF _ assms(2)]
        split: if_splits option.splits list.splits sum.splits prod.splits)
      (auto simp: failw_def failq_def)
qed

section \<open>A sample response\<close>

definition sample_plain :: bytes where
  \<open>sample_plain = ''{"state":"st","vp_token":{"pid":["ey.a~"],"mdl":["AAEC"]}}''\<close>

definition sample_body :: bytes where
  "sample_body = values_encode [(''response'', ''key-0001'' @ sample_plain)]"

lemma sample_response_ok:
  "(case ProcessResponse sample_deps sample_engine (Some sample_session) sample_body sample_world of
      (Inr (prs, c), so, w) \<Rightarrow> length prs = 2 | _ \<Rightarrow> False)"
  by code_simp

lemma sample_response:
  obtains prs c so w where
    "ProcessResponse sample_deps sample_engine (Some sample_session) sample_body sample_world
       = (Inr (prs, c), so, w)" "length prs = 2"
  using sample_response_ok that by (auto split: prod.splits sum.splits)

section \<open>What the presentations are bound to\<close>

lemma query_formats_in:
  "query_formats D s cid = Some fmt \<Longrightarrow>
     \<exists>cq \<in> set (Credentials D (S_Query s)). cq_ID cq = cid \<and> cq_Format cq = fmt"
  by (auto simp: query_formats_def dest!: map_of_SomeD)

definition presentation_bound ::
    "('q, 'r) deps \<Rightarrow> ('q, 'r) session \<Rightarrow> raw_map \<Rightarrow> bytes \<Rightarrow> presentation \<Rightarrow> bool" where
  "presentation_bound D s m thumb p \<longleftrightarrow>
     (\<exists>cq \<in> set (Credentials D (S_Query s)). cq_ID cq = P_QueryCredID p \<and> cq_Format cq = P_Format p)
     \<and> P_Nonce p = S_Nonce s \<and> P_ClientID p = S_ClientID s \<and> P_ResponseURI p = S_ResponseURI s
     \<and> P_Origin p = []
     \<and> (if P_Format p = FormatMdoc D
        then P_JWKThumbprint p = thumb
          \<and> (\<exists>entry \<in> set (entries_of m (P_QueryCredID p)). b64_decode entry = Some (P_Payload p))
        else P_JWKThumbprint p = []
          \<and> P_Payload p \<in> set (entries_of m (P_QueryCredID p)) \<and> P_Payload p \<noteq> [])"

lemma presentation_of_bound:
  assumes "id_ok D s m cid" and "entry \<in> set (entries_of m cid)"
  shows "presentation_bound D s m thumb (presentation_of D s thumb cid entry)"
proof -
  obtain fmt where fmt: "query_formats D s cid = Some fmt"
    using assms(1) by (auto simp: id_ok_def)
  have "entry_ok D s cid entry" using assms by (simp add: id_ok_def)
  then show ?thesis using query_formats_in [OF fmt] assms(2) fmt
    by (auto simp: presentation_bound_def presentation_of_def is_mdoc_def entry_ok_def)
qed

lemma presentations_bound:
  "vp_ok D s m \<Longrightarrow> p \<in> set (presentations_of D s m thumb) \<Longrightarrow> presentation_bound D s m thumb p"
  by (auto simp: presentations_of_def vp_ok_def intro!: presentation_of_bound)

lemma presentation_of_id [simp]: "P_QueryCredID (presentation_of D s thumb cid entry) = cid"
  by (simp add: presentation_of_def)

lemma presentations_ids:
  assumes "vp_ok D s m"
  shows "P_QueryCredID ` set (presentations_of D s m thumb) = set (map fst m)"
proof -
  have "P_QueryCredID ` presentation_of D s thumb cid ` set (entries_of m cid) = {cid}"
    if "cid \<in> set (map fst m)" for cid
  proof -
    have "entries_of m cid \<noteq> []" using assms that by (auto simp: vp_ok_def id_ok_def)
    then show ?thesis by (simp add: image_image image_constant_conv)
  qed
  then have "(\<Union>cid \<in> set (map fst m). P_QueryCredID ` presentation_of D s thumb cid ` set (entries_of m cid))
      = (\<Union>cid \<in> set (map fst m). {cid})"
    by (rule SUP_cong [OF refl])
  then show ?thesis by (simp only: presentations_of_def) (simp add: image_UN)
qed

lemma filter_concat_key:
  assumes "distinct xs" and "\<And>x y. g (f x y) = x"
  shows "filter (\<lambda>p. g p = c) (concat (map (\<lambda>x. map (f x) (h x)) xs)) = (if c \<in> set xs then map (f c) (h c) else [])"
  using assms(1)
proof (induction xs)
  case (Cons x xs)
  have "filter (\<lambda>p. g p = c) (map (f x) (h x)) = (if c = x then map (f x) (h x) else [])"
    by (auto simp: filter_map comp_def assms(2))
  with Cons show ?case by auto
qed simp

lemma presentations_of_id:
  assumes "distinct (map fst m)"
  shows "filter (\<lambda>p. P_QueryCredID p = cid) (presentations_of D s m thumb)
    = map (presentation_of D s thumb cid) (entries_of m cid)"
proof -
  have "entries_of m cid = []" if "cid \<notin> set (map fst m)"
  proof -
    have "map_of m cid = None" using that by (simp add: map_of_eq_None_iff)
    then show ?thesis by (simp add: entries_of_def)
  qed
  moreover have "distinct (sort (map fst m))" using assms by simp
  then have "filter (\<lambda>p. P_QueryCredID p = cid) (presentations_of D s m thumb)
      = (if cid \<in> set (sort (map fst m)) then map (presentation_of D s thumb cid) (entries_of m cid) else [])"
    unfolding presentations_of_def by (rule filter_concat_key) simp
  ultimately show ?thesis by auto
qed

lemma tokens_of_id:
  assumes "vp_ok D s m"
  shows "list_all2 (\<lambda>p token. if P_Format p = FormatMdoc D then b64_decode token = Some (P_Payload p)
      else P_Payload p = token \<and> token \<noteq> [])
    (map (presentation_of D s thumb cid) (entries_of m cid)) (entries_of m cid)"
proof -
  have "if P_Format p = FormatMdoc D then b64_decode token = Some (P_Payload p)
      else P_Payload p = token \<and> token \<noteq> []"
    if token: "token \<in> set (entries_of m cid)" and p: "p = presentation_of D s thumb cid token" for p token
  proof -
    from token have "cid \<in> fst ` set m"
      by (cases "map_of m cid") (auto simp: entries_of_def dest: map_of_SomeD intro: rev_image_eqI)
    with assms token have "entry_ok D s cid token" "query_formats D s cid \<noteq> None"
      by (auto simp: vp_ok_def id_ok_def)
    then show ?thesis by (auto simp: p presentation_of_def is_mdoc_def entry_ok_def)
  qed
  then show ?thesis by (simp add: list_all2_map1 list_all2_same)
qed

lemma sorted_concat_replicate:
  "sorted xs \<Longrightarrow> sorted (concat (map (\<lambda>x. map (\<lambda>_. x) (f x)) xs))"
  by (induction xs) (auto simp: sorted_append map_replicate_const)

lemma presentations_ids_sorted: "sorted (map P_QueryCredID (presentations_of D s m thumb))"
  using sorted_concat_replicate [of "sort (map fst m)" "entries_of m"]
  by (simp add: presentations_of_def map_concat comp_def)

lemma acceptable_presentations:
  assumes "acceptable D e s now body payload thumb"
  shows "presentations_of D s (vp_entries payload) thumb \<noteq> []"
proof -
  have "vp_entries payload \<noteq> []" and ok: "vp_ok D s (vp_entries payload)"
    using assms by (auto simp: acceptable_def open_response_Inr dest: parseResponsePayload_Inr)
  then have "P_QueryCredID ` set (presentations_of D s (vp_entries payload) thumb) \<noteq> {}"
    unfolding presentations_ids [OF ok] by simp
  then show ?thesis by auto
qed

section \<open>Properties\<close>

text \<open>
  C1: What makes a response acceptable. A \<open>direct_post.jwt\<close> request is accepted exactly when the session
  is a consumed, unexpired session of a request-URI flow; the body is within the limit and is a form
  with no error and exactly one nonempty response; that response decrypts under the session's own key,
  selected by the session id; its agreement info, if any, is the session's nonce; its payload carries
  the session's state and a nonempty \<open>vp_token\<close> whose entries all answer the session's query; and, in
  the same-device flow, the random source yields a response code. The presentations are then those of
  the reference mapping.
\<close>

theorem response_accepted_iff:
  "(\<exists>c so' w'. ProcessResponse D e (Some s) body w = (Inr (prs, c), so', w')) \<longleftrightarrow>
     S_Flow s \<noteq> DCAPI \<and> S_Consumed s \<and> e_clock e (w_ticks w) < S_ExpiresAt s
     \<and> int (length body) \<le> C_MaxResponseBody (e_cfg e)
     \<and> (\<exists>vals jwe priv plain hdr payload thumb.
          ParseQuery body = Some vals \<and> values_get vals ''error'' = []
          \<and> values_all vals ''response'' = [jwe] \<and> jwe \<noteq> []
          \<and> ephemeralPrivateKey D s = Inr priv
          \<and> DecryptJWE D [S_ID s \<mapsto> priv] (S_ID s) jwe = Inr (plain, hdr)
          \<and> apv_ok hdr (S_Nonce s)
          \<and> JWKThumbprintBytes D (sk_public priv) = Inr thumb
          \<and> parseResponsePayload plain = Inr payload
          \<and> rp_State payload = S_State s
          \<and> vp_ok D s (vp_entries payload)
          \<and> prs = presentations_of D s (vp_entries payload) thumb)
     \<and> (S_Flow s = SameDevice \<longrightarrow> (\<exists>c w'. randToken (e_rand e) 16 (tick_once w) = (Inr c, w')))"
  (is "?L \<longleftrightarrow> ?R")
proof
  assume ?L
  then obtain c so' w' where "ProcessResponse D e (Some s) body w = (Inr (prs, c), so', w')" by blast
  then show ?R
    by (rule ProcessResponse_Inr)
      (auto simp: acceptable_def open_response_Inr tokenBytes_def split: if_splits)
next
  assume R: ?R
  then obtain payload thumb where "acceptable D e s (e_clock e (w_ticks w)) body payload thumb"
      "prs = presentations_of D s (vp_entries payload) thumb"
    unfolding acceptable_def open_response_Inr by blast
  with R show ?L by (auto simp: ProcessResponse_acceptable Let_def tokenBytes_def)
qed

theorem response_accepted_iff_witness:
  "\<exists>prs vals jwe. length prs = 2 \<and> ParseQuery sample_body = Some vals
    \<and> values_all vals ''response'' = [jwe]
    \<and> (\<exists>c so' w'. ProcessResponse sample_deps sample_engine (Some sample_session) sample_body sample_world
         = (Inr (prs, c), so', w'))"
proof -
  obtain prs c so w where "ProcessResponse sample_deps sample_engine (Some sample_session) sample_body sample_world
       = (Inr (prs, c), so, w)" "length prs = 2"
    by (rule sample_response)
  then show ?thesis
    using response_accepted_iff [of sample_deps sample_engine sample_session sample_body sample_world prs]
    by blast
qed

text \<open>
  C23: The effect of a response. A rejected response leaves the session as it was. An accepted one gives at
  least one presentation; in the same-device flow it also gives a fresh response code, the encoding of
  the next sixteen bytes of the random source, which is stored unused on the session; in the
  cross-device flow there is no code and the session is unchanged.
\<close>

theorem response_effect:
  "(case ProcessResponse D e (Some s) body w of
      (Inl er, so', w') \<Rightarrow> so' = Some s
    | (Inr (prs, c), so', w') \<Rightarrow> prs \<noteq> []
        \<and> (if S_Flow s = SameDevice
           then (\<exists>bs. length bs = 16 \<and> c = b64_encode bs \<and> length c = 22
                   \<and> (\<forall>i < 16. e_rand e (w_rpos w + i) = Some (bs ! i)))
             \<and> so' = Some (s\<lparr>S_ResponseCode := c, S_ResponseCodeUsed := False\<rparr>)
           else c = [] \<and> so' = Some s))"
proof -
  obtain r so' w' where call: "ProcessResponse D e (Some s) body w = (r, so', w')"
    by (cases "ProcessResponse D e (Some s) body w") auto
  show ?thesis
  proof (cases r)
    case (Inl er)
    with call ProcessResponse_Inl [of D e "Some s" body w er so' w'] show ?thesis by simp
  next
    case (Inr pc)
    obtain prs c where pc: "pc = (prs, c)" by (cases pc) auto
    have "ProcessResponse D e (Some s) body w = (Inr (prs, c), so', w')" using call Inr pc by simp
    then obtain payload thumb where
        acc: "acceptable D e s (e_clock e (w_ticks w)) body payload thumb"
      and prs: "prs = presentations_of D s (vp_entries payload) thumb"
      and eff: "if S_Flow s = SameDevice
         then randToken (e_rand e) tokenBytes (tick_once w) = (Inr c, w')
           \<and> so' = Some (s\<lparr>S_ResponseCode := c, S_ResponseCodeUsed := False\<rparr>)
         else c = [] \<and> so' = Some s \<and> w' = tick_once w"
      by (rule ProcessResponse_Inr)
    have "prs \<noteq> []" using acc unfolding prs by (rule acceptable_presentations)
    moreover have "\<exists>bs. length bs = 16 \<and> c = b64_encode bs \<and> length c = 22
        \<and> (\<forall>i < 16. e_rand e (w_rpos w + i) = Some (bs ! i))" if "S_Flow s = SameDevice"
      using eff that randToken_token [of "e_rand e" tokenBytes "tick_once w" c w']
      by (auto simp: tokenBytes_def b64_encode_length)
    ultimately show ?thesis using call Inr pc eff by (auto split: if_splits)
  qed
qed

theorem response_effect_witness:
  "\<exists>prs c so' w'. ProcessResponse sample_deps sample_engine (Some sample_session) sample_body sample_world
      = (Inr (prs, c), so', w') \<and> length c = 22
    \<and> so' = Some (sample_session\<lparr>S_ResponseCode := c, S_ResponseCodeUsed := False\<rparr>)"
proof -
  obtain prs c so w where ok: "ProcessResponse sample_deps sample_engine (Some sample_session) sample_body sample_world
       = (Inr (prs, c), so, w)"
    by (rule sample_response)
  have "S_Flow sample_session = SameDevice" by (simp add: sample_session_def SameDevice_def)
  then show ?thesis
    using response_effect [where D = sample_deps and e = sample_engine and s = sample_session
        and body = sample_body and w = sample_world] ok
    by auto
qed

text \<open>
  C3: Every presentation is bound to the session and to its query. Where a call succeeds, the one response of
  the form decrypted under the session's own key. Each presentation that is handed out has the id and the
  format of a credential query of the session and carries the session's nonce, client id and response
  endpoint, and no origin; the thumbprint of the session's public key is on it exactly if it is an mdoc
  presentation. The ids come in order, they are the keys of the decrypted \<open>vp_token\<close>, and the
  presentations under each key are exactly the tokens sent under it, all of them and in their order,
  those of mdoc format decoded.
\<close>

theorem response_presentations_bound:
  assumes "ProcessResponse D e (Some s) body w = (Inr (prs, c), so', w')"
  shows "\<exists>vals jwe priv plain hdr thumb payload.
      ParseQuery body = Some vals \<and> values_all vals ''response'' = [jwe]
    \<and> ephemeralPrivateKey D s = Inr priv
    \<and> DecryptJWE D [S_ID s \<mapsto> priv] (S_ID s) jwe = Inr (plain, hdr)
    \<and> JWKThumbprintBytes D (sk_public priv) = Inr thumb
    \<and> parseResponsePayload plain = Inr payload
    \<and> sorted (map P_QueryCredID prs) \<and> P_QueryCredID ` set prs = set (map fst (vp_entries payload))
    \<and> (\<forall>cid. list_all2
         (\<lambda>p token. if P_Format p = FormatMdoc D then b64_decode token = Some (P_Payload p)
                    else P_Payload p = token \<and> token \<noteq> [])
         (filter (\<lambda>p. P_QueryCredID p = cid) prs) (entries_of (vp_entries payload) cid))
    \<and> (\<forall>p \<in> set prs.
         (\<exists>cq \<in> set (Credentials D (S_Query s)). cq_ID cq = P_QueryCredID p \<and> cq_Format cq = P_Format p)
       \<and> P_Nonce p = S_Nonce s \<and> P_ClientID p = S_ClientID s \<and> P_ResponseURI p = S_ResponseURI s
       \<and> P_Origin p = []
       \<and> P_JWKThumbprint p = (if P_Format p = FormatMdoc D then thumb else []))"
proof -
  obtain payload thumb where acc: "acceptable D e s (e_clock e (w_ticks w)) body payload thumb"
    and prs: "prs = presentations_of D s (vp_entries payload) thumb"
    using assms by (rule ProcessResponse_Inr)
  let ?m = "vp_entries payload"
  from acc have opened: "\<exists>vals jwe priv plain hdr.
      ParseQuery body = Some vals \<and> values_all vals ''response'' = [jwe]
      \<and> ephemeralPrivateKey D s = Inr priv
      \<and> DecryptJWE D [S_ID s \<mapsto> priv] (S_ID s) jwe = Inr (plain, hdr)
      \<and> JWKThumbprintBytes D (sk_public priv) = Inr thumb \<and> parseResponsePayload plain = Inr payload"
    unfolding acceptable_def open_response_Inr by blast
  have ok: "vp_ok D s ?m" and d: "distinct (map fst ?m)"
    using acc by (auto simp: acceptable_def open_response_Inr dest: parseResponsePayload_Inr)
  have "\<forall>cid. list_all2 (\<lambda>p token. if P_Format p = FormatMdoc D then b64_decode token = Some (P_Payload p)
        else P_Payload p = token \<and> token \<noteq> [])
      (filter (\<lambda>p. P_QueryCredID p = cid) prs) (entries_of ?m cid)"
    unfolding prs presentations_of_id [OF d] by (rule allI) (rule tokens_of_id [OF ok])
  moreover have "\<forall>p \<in> set prs.
       (\<exists>cq \<in> set (Credentials D (S_Query s)). cq_ID cq = P_QueryCredID p \<and> cq_Format cq = P_Format p)
       \<and> P_Nonce p = S_Nonce s \<and> P_ClientID p = S_ClientID s \<and> P_ResponseURI p = S_ResponseURI s
       \<and> P_Origin p = [] \<and> P_JWKThumbprint p = (if P_Format p = FormatMdoc D then thumb else [])"
    unfolding prs using presentations_bound [OF ok] by (simp add: presentation_bound_def)
  moreover have "sorted (map P_QueryCredID prs)" "P_QueryCredID ` set prs = set (map fst ?m)"
    unfolding prs by (rule presentations_ids_sorted, rule presentations_ids [OF ok])
  ultimately show ?thesis using opened by (elim exE conjE) (intro exI conjI; assumption)
qed

theorem response_presentations_bound_witness:
  "\<exists>prs c so w. ProcessResponse sample_deps sample_engine (Some sample_session) sample_body sample_world
      = (Inr (prs, c), so, w)
    \<and> (\<forall>p \<in> set prs. P_Nonce p = ''nonce'' \<and> P_ResponseURI p = ''https://v.example/r'')"
proof -
  obtain prs c so w where ok:
      "ProcessResponse sample_deps sample_engine (Some sample_session) sample_body sample_world
         = (Inr (prs, c), so, w)"
    by (rule sample_response)
  from response_presentations_bound [OF ok] ok show ?thesis by (auto simp: sample_session_def)
qed

text \<open>
  C11: What a wallet sends never looks like a server failure. If the session is consumed, its key is
  intact and the random source works, every rejection of a response is answered with a client error
  (400 or 404). Each text that the error value quotes is at most 67 bytes long, with one exception: the
  text of the error that decrypting the response with the session's key returned is wrapped as it is. A wallet
  error holds at most 259 bytes of the wallet's code and of its description.
\<close>

theorem response_rejection_is_client_error:
  assumes "ProcessResponse D e (Some s) body w = (Inl er, so', w')" and "S_Consumed s"
    and "ephemeralPrivateKey D s = Inr priv" and "JWKThumbprintBytes D (sk_public priv) = Inr thumb"
    and "\<forall>p. e_rand e p \<noteq> None"
  shows "fst (ErrorResponse (Some er)) \<in> {400, 404}
    \<and> (\<forall>q \<in> set (quoted er). length q \<le> 67
         \<or> er = failw ErrDecrypt (Foreign q)
           \<and> (\<exists>vals jwe. ParseQuery body = Some vals \<and> values_all vals ''response'' = [jwe]
                \<and> DecryptJWE D [S_ID s \<mapsto> priv] (S_ID s) jwe = Inl q))
    \<and> (\<forall>we. errors_as_wallet er = Some we
         \<longrightarrow> length (WE_Code we) \<le> 259 \<and> length (WE_Description we) \<le> 259)"
  using ProcessResponse_err [OF assms] decryption_error_source assms(1,3)
  unfolding wallet_caused_def by blast

theorem response_rejection_is_client_error_witness:
  "\<exists>er so' w'. ProcessResponse sample_deps sample_engine (Some sample_session) ''response=x'' sample_world
      = (Inl er, so', w') \<and> fst (ErrorResponse (Some er)) \<in> {400, 404}"
proof -
  have "(case ProcessResponse sample_deps sample_engine (Some sample_session) ''response=x'' sample_world of
      (Inl er, so', w') \<Rightarrow> True | _ \<Rightarrow> False)"
    by code_simp
  then obtain er so' w' where bad:
      "ProcessResponse sample_deps sample_engine (Some sample_session) ''response=x'' sample_world
         = (Inl er, so', w')"
    by (auto split: prod.splits sum.splits)
  have "S_Consumed sample_session" "ephemeralPrivateKey sample_deps sample_session = Inr (sample_key ''key-0001'')"
      "JWKThumbprintBytes sample_deps (sk_public (sample_key ''key-0001'')) = Inr ''thumb''"
      "\<forall>p. e_rand sample_engine p \<noteq> None"
    by (simp_all add: sample_defs ephemeralPrivateKey_def)
  from response_rejection_is_client_error [OF bad this] bad show ?thesis by blast
qed

text \<open>
  Wallet errors are reported without decryption. For a consumed and unexpired session, a form with an
  error parameter gives the wallet error with its texts clipped, unless it names a state other than the
  session's, which is a state mismatch; the crypto package is not called, so the result is the same for
  every environment.
\<close>

theorem wallet_error_reported:
  assumes "S_Flow s \<noteq> DCAPI" and "S_Consumed s" and "e_clock e (w_ticks w) < S_ExpiresAt s"
    and "int (length body) \<le> C_MaxResponseBody (e_cfg e)"
    and "ParseQuery body = Some vals" and "values_get vals ''error'' \<noteq> []"
  shows "ProcessResponse D e (Some s) body w =
    (Inl (if values_get vals ''state'' \<in> {[], S_State s}
          then WalletError \<lparr>WE_Code = clip (values_get vals ''error'') 256,
                 WE_Description = clip (values_get vals ''error_description'') 256\<rparr>
          else Sentinel ErrStateMismatch), Some s, tick_once w)"
  using assms
  by (simp add: ProcessResponse_def tick_def live_at_def walletErrorFrom_def Let_def maxWalletErrorLen_def)

theorem wallet_error_reported_witness:
  "fst (ProcessResponse sample_deps sample_engine (Some sample_session) ''error=access_denied'' sample_world)
    = Inl (WalletError \<lparr>WE_Code = ''access_denied'', WE_Description = []\<rparr>)"
proof -
  have "ParseQuery ''error=access_denied'' = Some [(''error'', ''access_denied'')]" by code_simp
  from wallet_error_reported [OF _ _ _ _ this, of sample_session sample_engine sample_world sample_deps]
  show ?thesis
    by (simp add: sample_defs flow_defs DefaultMaxResponseBody_def values_get_def values_all_def clip_def)
qed

text \<open>
  The check for trailing data is incomplete: a payload followed by a closing bracket and anything at
  all is accepted as if nothing followed (\<open>Decoder.More\<close> takes the bracket for the end of an array),
  while other trailing data is rejected.
\<close>

theorem payload_trailing_bracket_accepted:
  \<open>parseResponsePayload ''{"vp_token":{"a":["x"]}}] trailing''
     = parseResponsePayload ''{"vp_token":{"a":["x"]}}''
   \<and> parseResponsePayload ''{"vp_token":{"a":["x"]}}''
     = Inr \<lparr>rp_VPToken = Some [(''a'', JArr [JStr ''x''])], rp_State = []\<rparr>
   \<and> parseResponsePayload ''{"vp_token":{"a":["x"]}} trailing'' = Inl (failq ErrMalformedResponse [])\<close>
  by code_simp

section \<open>Properties of the Digital Credentials API\<close>

lemma ProcessDCAPIResponse_Inr:
  "fst (ProcessDCAPIResponse D e (Some s) origin data w) = Inr prs \<longleftrightarrow>
     S_Flow s = DCAPI \<and> S_Consumed s \<and> live_at (e_clock e (w_ticks w)) s
     \<and> origin \<in> set (S_ExpectedOrigins s) \<and> \<not> C_MaxResponseBody (e_cfg e) < int (length data)
     \<and> (\<exists>jwe payload thumb. decode_dcapi_body data = Some jwe \<and> jwe \<noteq> []
          \<and> open_response D s jwe = Inr (payload, thumb) \<and> vp_ok D s (vp_entries payload)
          \<and> prs = map (\<lambda>p. p\<lparr>P_Origin := origin\<rparr>) (presentations_of D s (vp_entries payload) thumb))"
proof (cases "S_Flow s = DCAPI \<and> S_Consumed s \<and> live_at (e_clock e (w_ticks w)) s
     \<and> origin \<in> set (S_ExpectedOrigins s) \<and> \<not> C_MaxResponseBody (e_cfg e) < int (length data)")
  case False
  then show ?thesis by (auto simp: ProcessDCAPIResponse_def tick_def)
next
  case True
  show ?thesis
  proof (cases "decode_dcapi_body data")
    case None
    with True show ?thesis by (simp add: ProcessDCAPIResponse_def tick_def)
  next
    case (Some jwe)
    have "fst (ProcessDCAPIResponse D e (Some s) origin data w) = Inr prs \<longleftrightarrow>
        jwe \<noteq> [] \<and> (\<exists>payload thumb ps. open_response D s jwe = Inr (payload, thumb)
           \<and> presentationsFromVPToken D s (vp_entries payload) thumb = Inr ps
           \<and> prs = map (\<lambda>p. p\<lparr>P_Origin := origin\<rparr>) ps)"
      using True Some
      by (auto simp: ProcessDCAPIResponse_def tick_def split: sum.splits prod.splits)
    with True Some show ?thesis by (auto simp: presentations_iff)
  qed
qed

lemma ProcessDCAPIResponse_err:
  assumes "fst (ProcessDCAPIResponse D e (Some s) origin data w) = Inl er" and "S_Consumed s"
    and "ephemeralPrivateKey D s = Inr priv" and "JWKThumbprintBytes D (sk_public priv) = Inr thumb"
  shows "wallet_caused D s er"
  using assms(1,2)
  by (auto simp: ProcessDCAPIResponse_def tick_def
      intro: wallet_caused_intros vp_err_wallet presentations_err open_response_err [OF _ assms(3,4)]
      split: if_splits option.splits sum.splits prod.splits)

definition sample_dcapi_done :: "(credential list, string) session" where
  "sample_dcapi_done = sample_dcapi\<lparr>S_Consumed := True\<rparr>"

definition sample_dcapi_body :: bytes where
  \<open>sample_dcapi_body = ''{"response":"key-0001{'' @ [bslash] @ ''"vp_token'' @ [bslash]
     @ ''":{'' @ [bslash] @ ''"pid'' @ [bslash] @ ''":['' @ [bslash] @ ''"x'' @ [bslash] @ ''"]}}"}''\<close>

lemma sample_dcapi_response_ok:
  "(case ProcessDCAPIResponse sample_deps sample_engine (Some sample_dcapi_done)
           ''https://shop.example'' sample_dcapi_body sample_world of
      (Inr prs, w) \<Rightarrow> map P_Payload prs = [''x''] | _ \<Rightarrow> False)"
  by code_simp

text \<open>
  C5: The origin is checked before anything of the response is looked at. For a consumed and unexpired
  DC API session a caller from an origin the session does not expect is refused, with the code
  \<open>invalid_client\<close>, whatever the data and whatever the environment.
\<close>

theorem dcapi_origin_gate:
  assumes "S_Flow s = DCAPI" and "S_Consumed s" and "e_clock e (w_ticks w) < S_ExpiresAt s"
    and "origin \<notin> set (S_ExpectedOrigins s)"
  shows "ProcessDCAPIResponse D e (Some s) origin data w
      = (Inl (Sentinel ErrOriginNotExpected), tick_once w)
    \<and> ErrorResponse (Some (Sentinel ErrOriginNotExpected))
      = (400, plain_body ''invalid_client'' ''origin not allowed'')"
proof -
  have "ErrorResponse (Some (Sentinel ErrOriginNotExpected))
      = (400, plain_body ''invalid_client'' ''origin not allowed'')"
    by code_simp
  then show ?thesis using assms by (simp add: ProcessDCAPIResponse_def tick_def live_at_def)
qed

theorem dcapi_origin_gate_witness:
  "fst (ProcessDCAPIResponse sample_deps sample_engine (Some sample_dcapi_done) ''https://evil.example''
     sample_dcapi_body sample_world) = Inl (Sentinel ErrOriginNotExpected)"
  using dcapi_origin_gate [of sample_dcapi_done sample_engine sample_world "''https://evil.example''"]
  by (simp add: sample_dcapi_done_def sample_dcapi_def sample_defs flow_defs)

text \<open>
  C6: What makes a Digital Credentials response acceptable: exactly the consumed, unexpired DC API
  sessions, an expected origin, a body within the limit with a nonempty response member, decryption
  under the session's own key, agreement info that is the session's nonce where there is any, and a
  \<open>vp_token\<close> that answers the query. The presentations are those of the reference mapping, each with
  the origin.
\<close>

theorem dcapi_response_accepted_iff:
  "fst (ProcessDCAPIResponse D e (Some s) origin data w) = Inr prs \<longleftrightarrow>
     S_Flow s = DCAPI \<and> S_Consumed s \<and> e_clock e (w_ticks w) < S_ExpiresAt s
     \<and> origin \<in> set (S_ExpectedOrigins s) \<and> int (length data) \<le> C_MaxResponseBody (e_cfg e)
     \<and> (\<exists>jwe priv plain hdr payload thumb. decode_dcapi_body data = Some jwe \<and> jwe \<noteq> []
          \<and> ephemeralPrivateKey D s = Inr priv
          \<and> DecryptJWE D [S_ID s \<mapsto> priv] (S_ID s) jwe = Inr (plain, hdr)
          \<and> apv_ok hdr (S_Nonce s)
          \<and> JWKThumbprintBytes D (sk_public priv) = Inr thumb
          \<and> parseResponsePayload plain = Inr payload
          \<and> vp_ok D s (vp_entries payload)
          \<and> prs = map (\<lambda>p. p\<lparr>P_Origin := origin\<rparr>) (presentations_of D s (vp_entries payload) thumb))"
  unfolding ProcessDCAPIResponse_Inr open_response_Inr live_at_def not_less by blast

text \<open>
  As in the other flows, a wallet cannot cause a server failure: if the session is consumed and its
  key is intact, every rejection of a Digital Credentials response is a client error that quotes little
  but what decryption said.
\<close>

theorem dcapi_rejection_is_client_error:
  assumes "fst (ProcessDCAPIResponse D e (Some s) origin data w) = Inl er" and "S_Consumed s"
    and "ephemeralPrivateKey D s = Inr priv" and "JWKThumbprintBytes D (sk_public priv) = Inr thumb"
  shows "fst (ErrorResponse (Some er)) \<in> {400, 404}
    \<and> (\<forall>q \<in> set (quoted er). length q \<le> 67 \<or> decryption_text D s q)"
  using ProcessDCAPIResponse_err [OF assms] unfolding wallet_caused_def by fast

theorem dcapi_rejection_is_client_error_witness:
  "fst (ErrorResponse (Some (Sentinel ErrOriginNotExpected))) \<in> {400, 404}"
proof -
  have "fst (ProcessDCAPIResponse sample_deps sample_engine (Some sample_dcapi_done) [] [] sample_world)
      = Inl (Sentinel ErrOriginNotExpected)"
    by (simp add: ProcessDCAPIResponse_def tick_def live_at_def sample_dcapi_done_def sample_dcapi_def
        sample_defs flow_defs)
  from dcapi_rejection_is_client_error [OF this, of "sample_key ''key-0001''" "''thumb''"]
  show ?thesis
    by (simp add: sample_dcapi_done_def sample_dcapi_def sample_defs ephemeralPrivateKey_def)
qed

end
