(* ===== verification/Limits.thy ===== *)
theory Limits
  imports Response
begin

text \<open>
  Limits on what a wallet can make the engine do: the size of what reaches decryption, the size of what
  error values carry, and the end of parsing.
\<close>

section \<open>Decryption\<close>

lemma other_decryption [simp]:
  "ephemeralPrivateKey (D\<lparr>DecryptJWE := dec\<rparr>) s = ephemeralPrivateKey D s"
  "presentationsFromVPToken (D\<lparr>DecryptJWE := dec\<rparr>) s m thumb = presentationsFromVPToken D s m thumb"
proof -
  show "ephemeralPrivateKey (D\<lparr>DecryptJWE := dec\<rparr>) s = ephemeralPrivateKey D s"
    by (simp add: ephemeralPrivateKey_def)
  have "present_entry (D\<lparr>DecryptJWE := dec\<rparr>) s = present_entry D s"
    by (intro ext) (simp add: present_entry_def)
  then have "present_id (D\<lparr>DecryptJWE := dec\<rparr>) s = present_id D s"
    by (intro ext) (simp add: present_id_def query_formats_def split: option.split list.split)
  then show "presentationsFromVPToken (D\<lparr>DecryptJWE := dec\<rparr>) s m thumb = presentationsFromVPToken D s m thumb"
    by (simp add: presentationsFromVPToken_def)
qed





section \<open>Strings of a JSON document\<close>









section \<open>Errors\<close>

text \<open>
  The texts that the packages of keys and decryption return to the library, which wraps them with
  \<open>%w\<close> as they are: of the parser of the stored key, of decryption with that key, of its thumbprint.
\<close>

definition package_text :: "('q, 'r) deps \<Rightarrow> ('q, 'r) session option \<Rightarrow> string \<Rightarrow> bool" where
  "package_text D so q \<longleftrightarrow> (\<exists>s. so = Some s \<and>
     (ParsePKCS8 D (S_EphemeralKeyPKCS8 s) = Inl q \<or> decryption_text D s q
      \<or> (\<exists>priv. ephemeralPrivateKey D s = Inr priv \<and> JWKThumbprintBytes D (sk_public priv) = Inl q)))"


definition brief :: "('q, 'r) deps \<Rightarrow> ('q, 'r) session option \<Rightarrow> err \<Rightarrow> bool" where
  "brief D so er \<longleftrightarrow>
     (\<forall>q \<in> set (quoted er). length q \<le> 67 \<or> package_text D so q \<and> (\<exists>t. er = failw t (Foreign q)))
     \<and> (\<forall>we. errors_as_wallet er = Some we
          \<longrightarrow> length (WE_Code we) \<le> 259 \<and> length (WE_Description we) \<le> 259)"

lemma brief_plain [simp]: "brief D so (Sentinel t)" "brief D so (failq t [])"
  by (simp_all add: brief_def failq_def)








section \<open>Properties\<close>



text \<open>
  C39: Parsing comes to an end, and its fuel decides nothing. The reader of the decrypted payload, of the
  Digital Credentials body and of transaction data entries needs no more than two steps per byte and
  two more, after which more fuel gives the same answer; a payload is accepted exactly if some amount of fuel
  accepts it.
\<close>

theorem payload_parser_terminates:
  "(\<forall>f \<ge> 2 * length plain + 2. pvalue f 0 plain = pvalue (2 * length plain + 2) 0 plain)
   \<and> (parseResponsePayload plain = Inr p \<longleftrightarrow>
        (\<exists>f v rest. pvalue f 0 plain = Some (v, rest) \<and> decode_payload v = Some p
           \<and> \<not> json_more rest \<and> vp_entries p \<noteq> []))
   \<and> (decode_dcapi_body plain = Some r \<longleftrightarrow>
        (\<exists>f v rest. pvalue f 0 plain = Some (v, rest)
           \<and> (v = JNull \<and> r = [] \<or> (\<exists>ms. v = JObj ms \<and> dcapi_members ms [] = Some r))))
   \<and> (is_object_entry plain \<longleftrightarrow> (\<exists>f ms rest. pvalue f 0 plain = Some (JObj ms, rest)))"
proof (intro conjI allI impI)
  fix f
  assume "2 * length plain + 2 \<le> f"
  then show "pvalue f 0 plain = pvalue (2 * length plain + 2) 0 plain"
    using pvalue_fuel [of plain f] pvalue_fuel [of plain "2 * length plain + 2"] by (simp del: pvalue.simps)
next
  have "parseResponsePayload plain = Inr p \<longleftrightarrow>
      (\<exists>v rest. json_prefix plain = Some (v, rest) \<and> decode_payload v = Some p \<and> \<not> json_more rest \<and> vp_entries p \<noteq> [])"
    by (auto simp: parseResponsePayload_def split: option.splits prod.splits)
  then show "parseResponsePayload plain = Inr p \<longleftrightarrow>
      (\<exists>f v rest. pvalue f 0 plain = Some (v, rest) \<and> decode_payload v = Some p
         \<and> \<not> json_more rest \<and> vp_entries p \<noteq> [])"
    unfolding json_prefix_iff by blast
next
  have "decode_dcapi_body plain = Some r \<longleftrightarrow> (\<exists>v rest. json_prefix plain = Some (v, rest)
      \<and> (v = JNull \<and> r = [] \<or> (\<exists>ms. v = JObj ms \<and> dcapi_members ms [] = Some r)))"
    by (auto simp: decode_dcapi_body_def split: option.splits prod.splits jvalue.splits)
  then show "decode_dcapi_body plain = Some r \<longleftrightarrow> (\<exists>f v rest. pvalue f 0 plain = Some (v, rest)
      \<and> (v = JNull \<and> r = [] \<or> (\<exists>ms. v = JObj ms \<and> dcapi_members ms [] = Some r)))"
    unfolding json_prefix_iff by blast
next
  show "is_object_entry plain \<longleftrightarrow> (\<exists>f ms rest. pvalue f 0 plain = Some (JObj ms, rest))"
    unfolding is_object_entry_iff json_prefix_iff by blast
qed

theorem payload_parser_terminates_witness: "pvalue 9 0 ''[]'' = pvalue 6 0 ''[]''"
  using payload_parser_terminates [of "''[]''", THEN conjunct1, rule_format, of 9] by (simp del: pvalue.simps)

end
