(* ===== verification/Wallet.thy ===== *)
theory Wallet
  imports Response Session_Codec
begin

text \<open>
  The other end of the protocol: what a wallet reads when it parses a request object, and that the answer it
  composes from what it has read is accepted. The wallet's JSON parser is the model's.
\<close>

section \<open>JSON that can be read back\<close>

definition fits :: "nat \<Rightarrow> jvalue \<Rightarrow> bool" where
  "fits n v \<longleftrightarrow> json_ok v \<and> json_depth v \<le> n"

lemma fits_mono: "fits m v \<Longrightarrow> m \<le> n \<Longrightarrow> fits n v"
  by (simp add: fits_def)

lemma fits_atom [simp]: "fits n (JStr s)" "fits n (JNum (int_dec i))" "fits n JNull" "fits n (JBool b)"
  by (simp_all add: fits_def number_ok_dec)

lemma fits_arr: "list_all (fits n) vs \<Longrightarrow> fits (Suc n) (JArr vs)"
  using foldr_max_le [of json_depth n vs] by (simp add: fits_def list_all_iff)

lemma fits_obj: "list_all (\<lambda>(k, v). fits n v) ms \<Longrightarrow> fits (Suc n) (JObj ms)"
  using foldr_max_le [of "\<lambda>(k, v). json_depth v" n ms] by (auto simp: fits_def list_all_iff split_beta)

lemma fits_map: "list_all (\<lambda>(k, v). fits n v) ms \<Longrightarrow> fits (Suc n) (json_map ms)"
  unfolding json_map_def by (rule fits_obj) (simp add: list_all_iff)

lemma fits_strings: "fits (Suc n) (JArr (map (\<lambda>x. JStr (f x)) xs))"
  by (rule fits_arr) (simp add: list_all_iff)

lemma fits_arrays: "fits (Suc n) (strings_json xs)" "fits (Suc n) (ints_json is)"
  by (auto simp: strings_json_def ints_json_def list_all_iff intro!: fits_arr)

lemma fits_document: "fits 10000 v \<Longrightarrow> json_document (json_print v) = Some (json_valid v)"
  by (simp add: fits_def json_document_print max_nesting_def)

section \<open>Every claim can be read back\<close>

lemma clientMetadata_fits:
  assumes "clientMetadata D e s = Inr cm"
  shows "fits 4 cm"
proof -
  from assms obtain jwk a b where cm: "cm = json_map [(''jwks'', JObj [(''keys'', JArr [jwk])]), a, b]"
    and jwk: "\<exists>ms. jwk = json_map ms \<and> list_all (\<lambda>(k, v). fits 0 v) ms"
    and ab: "fits 3 (snd a)" "fits 3 (snd b)"
    unfolding clientMetadata_def ephemeralJWK_def Let_def
    by (force split: sum.splits if_splits simp: numeral_3_eq_3
        intro!: fits_map fits_mono [OF fits_arrays(1) [of 0]] fits_mono [OF fits_arrays(2) [of 0]])
  from jwk have "fits (Suc 0) jwk" by (auto intro: fits_map)
  then have "fits 3 (JObj [(''keys'', JArr [jwk])])"
    unfolding numeral_3_eq_3 by (intro fits_obj fits_arr) (auto intro!: fits_arr)
  with ab have "fits (Suc 3) cm" unfolding cm by (intro fits_map) (simp add: split_beta)
  then show ?thesis by simp
qed

text \<open>The parts whose JSON form belongs to other packages.\<close>

definition foreign_parts_fit :: "('q, 'r) deps \<Rightarrow> ('q, 'r) session \<Rightarrow> bool" where
  "foreign_parts_fit D s \<longleftrightarrow> (\<forall>q. QueryJSON D (S_Query s) = Inr q \<longrightarrow> fits 9999 q)
     \<and> (\<forall>r. RefClaims D (S_Registration s) = Inr r \<longrightarrow> fits 9999 r)"

lemma optional_members_fit:
  assumes "(k, a) \<in> set (verifier_info_members s @ transaction_data_members e s)"
    and "marshal_any D a = Inr v"
  shows "fits 9999 v"
proof -
  have "fits (Suc (Suc 0)) (JArr [json_map [(''format'', JStr ''jwt''), (''data'', JStr (S_WRPRC s))]])"
    by (intro fits_arr) (auto intro!: fits_map)
  moreover have "fits (Suc 0) (transactionDataStrings (S_TransactionData s))"
    unfolding transactionDataStrings_def by (rule fits_strings)
  ultimately show ?thesis
    using assms by (auto simp: verifier_info_members_def transaction_data_members_def
        split: if_splits intro: fits_mono)
qed

lemma requestClaims_fit:
  assumes "requestClaims D e s w = (Inr cs, w')" and "foreign_parts_fit D s"
    and "(k, a) \<in> set cs" and "marshal_any D a = Inr v"
  shows "fits 9999 v"
  using assms(1)
proof (rule requestClaims_Inr)
  fix reg cm
  assume reg: "registration_claim D s = Inr reg" and cm: "clientMetadata D e s = Inr cm"
    and cs: "cs = [(''iss'', str (e_clientID e)), (''aud'', str audWallet),
       (''iat'', num (time_unix (e_clock e (w_ticks w)))),
       (''nbf'', num (time_unix (e_clock e (w_ticks w)))),
       (''exp'', num (time_unix (S_ExpiresAt s))), (''client_id'', str (e_clientID e)),
       (''response_type'', str ''vp_token''), (''response_mode'', str ''direct_post.jwt''),
       (''response_uri'', str (S_ResponseURI s)), (''nonce'', str (S_Nonce s)),
       (''state'', str (S_State s)), (''dcql_query'', AnyQ (S_Query s)),
       (''client_metadata'', AnyJ cm), (memberRegistration, AnyJ reg)]
       @ verifier_info_members s @ transaction_data_members e s"
  have "fits 9999 cm" using clientMetadata_fits [OF cm] by (rule fits_mono) simp
  moreover have "fits 9999 reg" and "\<And>q. QueryJSON D (S_Query s) = Inr q \<Longrightarrow> fits 9999 q"
    using reg assms(2) by (auto simp: registration_claim_Inr foreign_parts_fit_def)
  ultimately show ?thesis
    using assms(3,4) optional_members_fit [of k a s e D v] unfolding cs by auto
qed

lemma on_wire_fits:
  assumes "on_wire D cs ms" and "\<And>k a v. (k, a) \<in> set cs \<Longrightarrow> marshal_any D a = Inr v \<Longrightarrow> fits 9999 v"
  shows "fits 10000 (JObj ms)"
proof -
  have dist: "distinct (map fst ms)"
    using assms(1) strict_sorted_iff unfolding on_wire_def by blast
  have "fits 9999 v" if "(k, v) \<in> set ms" for k v
  proof -
    have "k \<in> set (map fst cs)" using that assms(1) unfolding on_wire_def by force
    then obtain a where a: "map_of cs k = Some a"
      by (metis list.set_map map_of_eq_None_iff not_Some_eq)
    then have "marshal_any D a = Inr v"
      using on_wireD [OF assms(1) a] that dist by auto
    with assms(2) [OF map_of_SomeD [OF a]] show ?thesis by simp
  qed
  then have "fits (Suc 9999) (JObj ms)" by (intro fits_obj) (auto simp: list_all_iff)
  then show ?thesis by simp
qed

text \<open>Reading an object whose names are ASCII.\<close>

lemma read_object:
  assumes "fits 10000 (JObj ms)" and "\<forall>k \<in> set (map fst ms). ascii k"
  obtains ms' where "json_document (json_print (JObj ms)) = Some (JObj ms')" "map fst ms' = map fst ms"
    "\<And>k. map_of ms' k = map_option json_valid (map_of ms k)"
proof (rule that [of "map (\<lambda>(k, v). (k, json_valid v)) ms"])
  have "map (\<lambda>(k, v). (valid_utf8 k, json_valid v)) ms = map (\<lambda>(k, v). (k, json_valid v)) ms"
    using assms(2) by (auto simp: valid_utf8_id is_utf8_ascii)
  then show "json_document (json_print (JObj ms)) = Some (JObj (map (\<lambda>(k, v). (k, json_valid v)) ms))"
    using fits_document [OF assms(1)] by (simp del: json_print.simps)
  show "map_of (map (\<lambda>(k, v). (k, json_valid v)) ms) k = map_option json_valid (map_of ms k)" for k
    by (simp add: map_of_map)
qed (simp add: split_def comp_def)

lemma request_members_ascii: "k \<in> request_members e s \<Longrightarrow> ascii k"
  by (auto simp: request_members_def split: if_splits)

lemma json_valid_data: "json_valid (transactionDataStrings td) = transactionDataStrings td"
  by (simp add: transactionDataStrings_def valid_utf8_id is_utf8_ascii b64_encode_ascii)

section \<open>The answer\<close>

text \<open>What a wallet encrypts: presentations for each credential it answers, and the state.\<close>

type_synonym answer = "(string \<times> bytes list) list"

definition answer_tokens :: "answer \<Rightarrow> raw_map" where
  "answer_tokens ans = map (\<lambda>(cid, es). (cid, JArr (map JStr es))) ans"

definition answer_payload :: "answer \<Rightarrow> string \<Rightarrow> bytes" where
  "answer_payload ans st = json_print (JObj [(''vp_token'', JObj (answer_tokens ans)), (''state'', JStr st)])"

definition utf8_answer :: "answer \<Rightarrow> bool" where
  "utf8_answer ans \<longleftrightarrow> (\<forall>(cid, es) \<in> set ans. is_utf8 cid \<and> (\<forall>x \<in> set es. is_utf8 x))"

definition answers_query :: "('q, 'r) deps \<Rightarrow> ('q, 'r) session \<Rightarrow> answer \<Rightarrow> bool" where
  "answers_query D s ans \<longleftrightarrow> ans \<noteq> [] \<and> distinct (map fst ans)
     \<and> (\<forall>(cid, es) \<in> set ans. query_formats D s cid \<noteq> None \<and> es \<noteq> [] \<and> (\<forall>x \<in> set es. entry_ok D s cid x))"

lemma answer_keys [simp]: "map fst (answer_tokens ans) = map fst ans"
  by (simp add: answer_tokens_def split_def comp_def)

lemma fold_update_new:
  "distinct (map fst (m @ ms)) \<Longrightarrow> fold (\<lambda>(k, x) m. AList.update k x m) ms m = m @ ms"
proof (induction ms arbitrary: m)
  case (Cons p ms)
  obtain k x where p: "p = (k, x)" by (cases p)
  have "AList.update k x m = m @ [(k, x)]" if "k \<notin> set (map fst m)" for m :: "('a \<times> 'b) list"
    using that by (induction m) auto
  with Cons.prems have "AList.update k x m = m @ [p]" by (auto simp: p)
  with Cons show ?case by (simp add: p)
qed simp

lemma answer_parsed:
  assumes "utf8_answer ans" and "is_utf8 st" and "distinct (map fst ans)" and "ans \<noteq> []"
  shows "parseResponsePayload (answer_payload ans st) = Inr \<lparr>rp_VPToken = Some (answer_tokens ans), rp_State = st\<rparr>"
proof -
  let ?v = "JObj [(''vp_token'', JObj (answer_tokens ans)), (''state'', JStr st)]"
  have "list_all (\<lambda>(k, v). fits (Suc 0) v) (answer_tokens ans)"
    by (auto simp: answer_tokens_def list_all_iff intro!: fits_arr)
  then have "fits (Suc (Suc (Suc 0))) ?v" by (intro fits_obj) (auto intro!: fits_obj)
  moreover have "json_utf8 ?v"
    using assms(1,2) by (auto simp: answer_tokens_def utf8_answer_def list_all_iff is_utf8_ascii)
  ultimately have "json_prefix (answer_payload ans st) = Some (?v, [])"
    using json_round_trip [of ?v "[]"]
    by (simp add: fits_def max_nesting_def number_end_def json_valid_id answer_payload_def
        del: json_print.simps json_valid.simps json_utf8.simps json_depth.simps json_ok.simps)
  moreover have "field_match ''vp_token'' ''vp_token''" "\<not> field_match ''state'' ''vp_token''"
      "field_match ''state'' ''state''"
    by (simp_all add: field_match_def)
  moreover have "into_raw_map (JObj (answer_tokens ans)) None = Some (Some (answer_tokens ans))"
    using fold_update_new [of "[]" "answer_tokens ans"] assms(3) by (simp add: into_raw_map_def)
  moreover have "answer_tokens ans \<noteq> []" using assms(4) by (simp add: answer_tokens_def)
  ultimately show ?thesis
    by (simp add: parseResponsePayload_def decode_payload_def zero_payload_def into_string_def
        json_more_def skip_ws_def vp_entries_def)
qed

lemma answer_entries:
  assumes "distinct (map fst ans)" and "(cid, es) \<in> set ans"
  shows "entries_of (answer_tokens ans) cid = es"
proof -
  have "map_of (answer_tokens ans) cid = Some (JArr (map JStr es))"
    by (rule map_of_is_SomeI) (use assms in \<open>simp, force simp: answer_tokens_def\<close>)
  then show ?thesis
    using into_strings_JStr [of id es] by (simp add: entries_of_def comp_def)
qed

lemma answer_vp_ok: "answers_query D s ans \<Longrightarrow> vp_ok D s (answer_tokens ans)"
  unfolding vp_ok_def id_ok_def
proof
  fix cid
  assume q: "answers_query D s ans" and "cid \<in> fst ` set (answer_tokens ans)"
  then obtain es where es: "(cid, es) \<in> set ans" by (auto simp: answer_tokens_def)
  with q show "query_formats D s cid \<noteq> None \<and> entries_of (answer_tokens ans) cid \<noteq> []
      \<and> (\<forall>entry\<in>set (entries_of (answer_tokens ans) cid). entry_ok D s cid entry)"
    using answer_entries [OF _ es] by (fastforce simp: answers_query_def)
qed

lemma map_fst_sort_key: "map fst (sort_key fst xs) = sort (map fst xs)"
  by (rule properties_for_sort [symmetric]) simp_all

lemma answer_presentations:
  assumes "distinct (map fst ans)"
  shows "presentations_of D s (answer_tokens ans) thumb
    = concat (map (\<lambda>(cid, es). map (presentation_of D s thumb cid) es) (sort_key fst ans))"
proof -
  have "presentations_of D s (answer_tokens ans) thumb
      = concat (map (\<lambda>cid. map (presentation_of D s thumb cid) (entries_of (answer_tokens ans) cid))
          (map fst (sort_key fst ans)))"
    by (simp add: presentations_of_def map_fst_sort_key)
  also have "\<dots> = concat (map (\<lambda>(cid, es). map (presentation_of D s thumb cid) es) (sort_key fst ans))"
    unfolding map_map using answer_entries [OF assms] by (intro arg_cong [of _ _ concat] map_cong) auto
  finally show ?thesis .
qed

section \<open>Properties\<close>

text \<open>
  C14: The wallet reads what the session holds. The payload of a request object, whatever the contents of the
  session, parses as one JSON object with exactly the expected members, each once; read back, its client
  id, endpoint, nonce and state are the session's (with invalid UTF-8 replaced), its query and client
  metadata are those that were marshalled, and its transaction data decodes to the session's entries,
  byte for byte.
\<close>

theorem request_read_by_wallet:
  assumes "RequestObjectJWT D e (Some s) w = (Inr tok, so', w')" and "foreign_parts_fit D s"
  shows "\<exists>payload n ms q cm.
      SignJWS D (C_Keys (e_cfg e)) (C_SigningKeyID (e_cfg e))
        \<lparr>hdr_typ = typOAuthAuthzReq, hdr_x5c = C_WRPACChain (e_cfg e)\<rparr> payload n = Inr tok
    \<and> json_document payload = Some (JObj ms)
    \<and> distinct (map fst ms) \<and> set (map fst ms) = request_members e s
    \<and> map_of ms ''client_id'' = Some (JStr (valid_utf8 (e_clientID e)))
    \<and> map_of ms ''response_uri'' = Some (JStr (valid_utf8 (S_ResponseURI s)))
    \<and> map_of ms ''nonce'' = Some (JStr (valid_utf8 (S_Nonce s)))
    \<and> map_of ms ''state'' = Some (JStr (valid_utf8 (S_State s)))
    \<and> QueryJSON D (S_Query s) = Inr q \<and> map_of ms ''dcql_query'' = Some (json_valid q)
    \<and> clientMetadata D e s = Inr cm \<and> map_of ms ''client_metadata'' = Some (json_valid cm)
    \<and> (''transaction_data'' \<in> request_members e s \<longrightarrow>
         (\<exists>xs. map_of ms ''transaction_data'' = Some (JArr (map JStr xs))
            \<and> map b64_decode xs = map Some (S_TransactionData s)))"
proof -
  obtain cs ms w1 where
      rc: "requestClaims D e s (w\<lparr>w_ticks := Suc (w_ticks w)\<rparr>) = (Inr cs, w1)"
    and wire: "on_wire D cs ms"
    and sig: "SignJWS D (C_Keys (e_cfg e)) (C_SigningKeyID (e_cfg e))
       \<lparr>hdr_typ = typOAuthAuthzReq, hdr_x5c = C_WRPACChain (e_cfg e)\<rparr>
       (json_print (JObj ms)) (w_entropy w1) = Inr tok"
    using assms(1) by (auto elim: RequestObjectJWT_Inr)
  note parts = requestClaims_parts [OF rc wire]
  have ok: "fits 10000 (JObj ms)"
    using wire requestClaims_fit [OF rc assms(2)] by (rule on_wire_fits)
  have "\<forall>k \<in> set (map fst ms). ascii k" unfolding parts(1) using request_members_ascii by blast
  with ok obtain ms' where read: "json_document (json_print (JObj ms)) = Some (JObj ms')"
      "map fst ms' = map fst ms" "\<And>k. map_of ms' k = map_option json_valid (map_of ms k)"
    by (rule read_object) blast
  have "\<exists>xs. map_of ms' ''transaction_data'' = Some (JArr (map JStr xs))
      \<and> map b64_decode xs = map Some (S_TransactionData s)" if "''transaction_data'' \<in> request_members e s"
    using parts(8) [OF that] json_valid_data [of "S_TransactionData s"]
    by (intro exI [of _ "map b64_encode (S_TransactionData s)"])
      (simp add: read(3) transactionDataStrings_def comp_def b64_round_trip)
  moreover obtain q where "QueryJSON D (S_Query s) = Inr q" "map_of ms ''dcql_query'' = Some q"
    using parts(6) by blast
  moreover obtain cm where "clientMetadata D e s = Inr cm" "map_of ms ''client_metadata'' = Some cm"
    using parts(7) by blast
  moreover have "distinct (map fst ms)" using wire strict_sorted_iff unfolding on_wire_def by blast
  ultimately show ?thesis
    using sig read parts(1-5)
    by (intro exI [of _ "json_print (JObj ms)"] exI [of _ "w_entropy w1"] exI [of _ ms'] exI [of _ q] exI [of _ cm]) simp
qed

theorem request_read_by_wallet_witness:
  "\<exists>payload n ms tok. SignJWS sample_deps (C_Keys (e_cfg sample_engine)) (C_SigningKeyID (e_cfg sample_engine))
        \<lparr>hdr_typ = typOAuthAuthzReq, hdr_x5c = C_WRPACChain (e_cfg sample_engine)\<rparr> payload n = Inr tok
    \<and> json_document payload = Some (JObj ms) \<and> map_of ms ''nonce'' = Some (JStr ''nonce'')
    \<and> map_of ms ''state'' = Some (JStr ''st'')"
proof -
  obtain tok so w where ok:
    "RequestObjectJWT sample_deps sample_engine (Some sample_unserved) sample_world = (Inr tok, so, w)"
    by (rule sample_request)
  have "fits 9999 (JArr (map (\<lambda>c. JStr (cq_ID c)) q))" for q :: "credential list"
    by (rule fits_mono [OF fits_strings [of 0]]) simp
  moreover have "fits (Suc 0) (JObj [(''sub'', JStr r)])" for r by (rule fits_obj) simp
  then have "fits 9999 (JObj [(''sub'', JStr r)])" for r by (rule fits_mono) simp
  ultimately have "foreign_parts_fit sample_deps sample_unserved"
    by (simp add: foreign_parts_fit_def sample_deps_def)
  from request_read_by_wallet [OF ok this] show ?thesis
    by (fastforce simp: sample_unserved_def sample_session_def)
qed

text \<open>
  C13: An honest wallet is accepted. Let a wallet answer some of the session's credential queries, each once and
  with presentations that fit their format, encrypt them with the session's state to the key it was
  given, and post the result within the body limit, while the session is live and consumed. Then
  \<open>ProcessResponse\<close> succeeds, and its presentations are the wallet's, in the order of the credential ids
  and in the wallet's order within each.
\<close>

theorem honest_wallet_accepted:
  assumes "S_Flow s \<noteq> DCAPI" and "S_Consumed s" and "e_clock e (w_ticks w) < S_ExpiresAt s"
    and "\<forall>p. e_rand e p \<noteq> None"
    and "ephemeralPrivateKey D s = Inr priv" and "JWKThumbprintBytes D (sk_public priv) = Inr thumb"
    and "DecryptJWE D [S_ID s \<mapsto> priv] (S_ID s) jwe = Inr (answer_payload ans (S_State s), hdr)"
    and "apv_ok hdr (S_Nonce s)" and "jwe \<noteq> []"
    and "int (length (values_encode [(''response'', jwe)])) \<le> C_MaxResponseBody (e_cfg e)"
    and "answers_query D s ans" and "utf8_answer ans" and "is_utf8 (S_State s)"
  shows "\<exists>c so' w'. ProcessResponse D e (Some s) (values_encode [(''response'', jwe)]) w
    = (Inr (concat (map (\<lambda>(cid, es). map (presentation_of D s thumb cid) es) (sort_key fst ans)), c), so', w')"
proof -
  let ?body = "values_encode [(''response'', jwe)]"
  let ?p = "\<lparr>rp_VPToken = Some (answer_tokens ans), rp_State = S_State s\<rparr>"
  have ans: "distinct (map fst ans)" "ans \<noteq> []" using assms(11) by (simp_all add: answers_query_def)
  have "parseResponsePayload (answer_payload ans (S_State s)) = Inr ?p"
    using answer_parsed [OF assms(12,13) ans] .
  then have "open_response D s jwe = Inr (?p, thumb)"
    using assms(5-8) unfolding open_response_Inr by blast
  moreover have "ParseQuery ?body = Some [(''response'', jwe)]" by (rule ParseQuery_single)
  moreover have "values_get [(''response'', jwe)] ''error'' = []" "values_all [(''response'', jwe)] ''response'' = [jwe]"
    by (simp_all add: values_get_def values_all_def)
  moreover have "vp_entries ?p = answer_tokens ans" by (simp add: vp_entries_def)
  ultimately have "acceptable D e s (e_clock e (w_ticks w)) ?body ?p thumb"
    using assms(1-3,9,10) answer_vp_ok [OF assms(11)] unfolding acceptable_def by auto
  from ProcessResponse_acceptable [OF this] show ?thesis
    using randToken_total [OF assms(4), of tokenBytes "tick_once w"] answer_presentations [OF ans(1), of D s thumb]
    by (auto simp: vp_entries_def Let_def)
qed

theorem honest_wallet_accepted_witness:
  "\<exists>c so w. ProcessResponse sample_deps sample_engine (Some sample_session)
      (values_encode [(''response'', ''key-0001'' @ answer_payload [(''pid'', [''ey.a~''])] ''st'')]) sample_world
    = (Inr ([presentation_of sample_deps sample_session ''thumb'' ''pid'' ''ey.a~''], c), so, w)"
proof -
  let ?ans = "[(''pid'', [''ey.a~''])] :: answer"
  have env: "e_clock sample_engine n = 0" "e_rand sample_engine p \<noteq> None"
      "C_MaxResponseBody (e_cfg sample_engine) = 1048576" for n p
    by (simp_all add: sample_engine_def make_engine_def sample_cfg_def sample_deps_def DefaultMaxResponseBody_def Let_def)
  have key: "ephemeralPrivateKey sample_deps sample_session = Inr (sample_key ''key-0001'')"
    by (simp add: ephemeralPrivateKey_def sample_deps_def sample_session_def)
  have dec: "DecryptJWE sample_deps [S_ID sample_session \<mapsto> sample_key ''key-0001''] (S_ID sample_session)
      (''key-0001'' @ answer_payload ?ans ''st'') = Inr (answer_payload ?ans ''st'', Map.empty)"
    by (simp add: sample_deps_def sample_decrypt_def sample_key_def)
  have "answers_query sample_deps sample_session ?ans" "utf8_answer ?ans" "is_utf8 ''st''"
      "int (length (values_encode [(''response'', ''key-0001'' @ answer_payload ?ans ''st'')])) \<le> 1048576"
    by code_simp+
  then show ?thesis
    using honest_wallet_accepted [where D = sample_deps and s = sample_session and e = sample_engine and ans = ?ans
        and w = sample_world and jwe = "''key-0001'' @ answer_payload ?ans ''st''"
        and priv = "sample_key ''key-0001''" and thumb = "''thumb''" and hdr = Map.empty]
      env key dec by (simp add: sample_session_def sample_deps_def apv_ok_def DCAPI_def)
qed

end
