(* ===== verification/Same_Device.thy ===== *)
theory Same_Device
  imports Response New_Session
begin

text \<open>
  The same-device return (\<open>samedevice.go\<close>), the session transcript of a presentation
  (\<open>transcript.go\<close>) and the absorption of wallet metadata (\<open>walletmetadata.go\<close>).
\<close>

section \<open>Redirect and response code\<close>

definition RedirectURI :: "('q, 'r) session option \<Rightarrow> err + string" where
  "RedirectURI so =
     (case so of
        None \<Rightarrow> Inl (Sentinel ErrSessionInvalid)
      | Some s \<Rightarrow>
          if S_Flow s \<noteq> SameDevice then Inl (Sentinel ErrFlowMismatch)
          else if S_ResponseCode s = [] then Inl (Sentinel ErrNoResponseCode)
          else
            (let sep = (if CHR ''?'' \<in> set (S_ReturnURI s) then ''&'' else ''?'') in
             Inr (S_ReturnURI s @ sep @ ''response_code='' @ query_escape (S_ResponseCode s))))"

definition ConsumeResponseCode ::
    "('q, 'r) session option \<Rightarrow> string \<Rightarrow> err option \<times> ('q, 'r) session option" where
  "ConsumeResponseCode so code =
     (case so of
        None \<Rightarrow> (Some (Sentinel ErrSessionInvalid), so)
      | Some s \<Rightarrow>
          if S_ResponseCode s = [] then (Some (Sentinel ErrNoResponseCode), so)
          else if S_ResponseCodeUsed s then (Some (Sentinel ErrResponseCodeConsumed), so)
          else if S_ResponseCode s \<noteq> code then (Some (Sentinel ErrResponseCodeMismatch), so)
          else (None, Some (s\<lparr>S_ResponseCodeUsed := True\<rparr>)))"

section \<open>Session transcripts\<close>

text \<open>The two handover constructors of \<open>go-mdoc\<close>; \<open>'t\<close> is \<open>mdoc.SessionTranscript\<close>.\<close>

record 't mdoc_lib =
  OID4VPHandover :: "string \<Rightarrow> string \<Rightarrow> bytes \<Rightarrow> string \<Rightarrow> 't"
  OID4VPDCAPIHandover :: "string \<Rightarrow> string \<Rightarrow> bytes \<Rightarrow> 't"

definition SessionTranscriptFor ::
    "('q, 'r) deps \<Rightarrow> 't mdoc_lib \<Rightarrow> presentation \<Rightarrow> err + 't" where
  "SessionTranscriptFor D M p =
     (if P_Format p \<noteq> FormatMdoc D then Inl (Sentinel ErrTranscriptParams)
      else if P_Nonce p = [] \<or> P_JWKThumbprint p = [] then Inl (Sentinel ErrTranscriptParams)
      else if P_Origin p \<noteq> [] then
        Inr (OID4VPDCAPIHandover M (P_Origin p) (P_Nonce p) (P_JWKThumbprint p))
      else if P_ClientID p = [] \<or> P_ResponseURI p = [] then Inl (Sentinel ErrTranscriptParams)
      else Inr (OID4VPHandover M (P_ClientID p) (P_Nonce p) (P_JWKThumbprint p) (P_ResponseURI p)))"

section \<open>Wallet metadata\<close>

definition maxWalletMetadataBytes :: int where
  "maxWalletMetadataBytes = 65536"

definition AbsorbWalletMetadata ::
    "('q, 'r) session option \<Rightarrow> bytes \<Rightarrow> err option \<times> ('q, 'r) session option" where
  "AbsorbWalletMetadata so raw =
     (case so of
        None \<Rightarrow> (Some (Sentinel ErrSessionInvalid), so)
      | Some s \<Rightarrow>
          if raw = [] \<or> int (length raw) > maxWalletMetadataBytes then
            (Some (failq ErrWalletMetadataInvalid []), so)
          else
            (case json_prefix raw of
               None \<Rightarrow> (Some (failq ErrWalletMetadataInvalid []), so)
             | Some (v, rest) \<Rightarrow>
                 (case into_raw_map v None of
                    None \<Rightarrow> (Some (failq ErrWalletMetadataInvalid []), so)
                  | Some doc \<Rightarrow>
                      if json_more rest then (Some (failq ErrWalletMetadataInvalid []), so)
                      else if doc = None then (Some (failq ErrWalletMetadataInvalid []), so)
                      else (None, Some (s\<lparr>S_WalletMetadata := raw\<rparr>)))))"

section \<open>Lemmas\<close>

lemma ConsumeResponseCode_ok:
  "ConsumeResponseCode (Some s) code = (None, so') \<longleftrightarrow>
     code = S_ResponseCode s \<and> code \<noteq> [] \<and> \<not> S_ResponseCodeUsed s
     \<and> so' = Some (s\<lparr>S_ResponseCodeUsed := True\<rparr>)"
  by (auto simp: ConsumeResponseCode_def)

lemma ConsumeResponseCode_fail: "ConsumeResponseCode so code = (Some er, so') \<Longrightarrow> so' = so"
  by (auto simp: ConsumeResponseCode_def split: option.splits if_splits)

lemma into_raw_map_some_iff: "into_raw_map v cur = Some (Some m) \<Longrightarrow> \<exists>ms. v = JObj ms"
  by (auto simp: into_raw_map_def split: jvalue.splits)

lemma AbsorbWalletMetadata_ok:
  "AbsorbWalletMetadata (Some s) raw = (None, so') \<longleftrightarrow>
     raw \<noteq> [] \<and> int (length raw) \<le> maxWalletMetadataBytes
     \<and> (\<exists>ms rest. json_prefix raw = Some (JObj ms, rest) \<and> \<not> json_more rest)
     \<and> so' = Some (s\<lparr>S_WalletMetadata := raw\<rparr>)"
  by (auto simp: AbsorbWalletMetadata_def into_raw_map_def split: option.splits prod.splits jvalue.splits)

section \<open>Redeeming\<close>

text \<open>The attempts to redeem the code of one session, one after the other.\<close>

fun redeem_run ::
    "('q, 'r) session option \<Rightarrow> string list \<Rightarrow> err option list \<times> ('q, 'r) session option" where
  "redeem_run so [] = ([], so)"
| "redeem_run so (c # cs) =
     (case ConsumeResponseCode so c of (r, so') \<Rightarrow> map_prod ((#) r) id (redeem_run so' cs))"

lemma redeem_used:
  "S_ResponseCode s \<noteq> [] \<Longrightarrow> S_ResponseCodeUsed s \<Longrightarrow>
     redeem_run (Some s) cs = (replicate (length cs) (Some (Sentinel ErrResponseCodeConsumed)), Some s)"
  by (induction cs) (simp_all add: ConsumeResponseCode_def)

lemma redeem_wrong:
  "S_ResponseCode s \<noteq> [] \<Longrightarrow> \<not> S_ResponseCodeUsed s \<Longrightarrow> S_ResponseCode s \<notin> set cs \<Longrightarrow>
     redeem_run (Some s) cs = (replicate (length cs) (Some (Sentinel ErrResponseCodeMismatch)), Some s)"
  by (induction cs) (simp_all add: ConsumeResponseCode_def)

lemma redeem_append:
  "redeem_run so (xs @ ys) =
     (case redeem_run so xs of (rs, so') \<Rightarrow> map_prod ((@) rs) id (redeem_run so' ys))"
  by (induction xs arbitrary: so) (simp_all add: split_beta prod_eq_iff)

section \<open>The redirect\<close>

lemma escaped_clean: "CHR ''#'' \<notin> set (query_escape c)" "\<not> list_ex ctl_byte (query_escape c)"
  using query_escape_no_sep [of "CHR ''#''" c] query_escape_not_ctl [of _ c]
  by (auto simp: list_ex_iff)

lemma percent_unescape_char: "percent_unescape (escape_char c @ r)
    = map_option (\<lambda>t. (if c = CHR '' '' then CHR ''+'' else c) # t) (percent_unescape r)"
proof -
  have "\<not> query_safe (CHR '' '')" "CHR ''+'' \<noteq> CHR ''%''"
    by (simp_all add: query_safe_def is_alnum_def is_lower_def is_upper_def is_digit_def)
  then show ?thesis
    using query_safe_plain [of c] byte_digits [of c] by (auto simp: escape_char_def)
qed

lemma percent_unescape_escaped: "\<exists>y. percent_unescape (query_escape s) = Some y"
  by (induction s) (auto simp: query_escape_def percent_unescape_char)

lemma RedirectURI_Inr:
  "RedirectURI (Some s) = Inr uri \<longleftrightarrow> S_Flow s = SameDevice \<and> S_ResponseCode s \<noteq> []
     \<and> uri = S_ReturnURI s @ (if CHR ''?'' \<in> set (S_ReturnURI s) then ''&'' else ''?'')
         @ ''response_code='' @ query_escape (S_ResponseCode s)"
  by (auto simp: RedirectURI_def Let_def)

lemma code_query: "parse_query (''response_code='' @ query_escape c) = Some [(''response_code'', c)]"
proof -
  have "query_escape ''response_code'' = ''response_code''" by code_simp
  then show ?thesis using parse_query_join [of "[(''response_code'', c)]"] by (simp add: encode_pair_def)
qed

definition sample_redirect :: "(credential list, string) session" where
  "sample_redirect = sample_session\<lparr>S_ReturnURI := ''https://c.example/cb?x=1'',
     S_ResponseCode := ''AAECAw''\<rparr>"

section \<open>Transcripts\<close>

lemma transcript_presentation:
  assumes "S_Nonce s \<noteq> []" and "S_ClientID s \<noteq> []" and "S_ResponseURI s \<noteq> []" and "thumb \<noteq> []"
    and "presentation_bound D s m thumb p"
  shows "SessionTranscriptFor D M p =
    (if P_Format p = FormatMdoc D
     then Inr (OID4VPHandover M (S_ClientID s) (S_Nonce s) thumb (S_ResponseURI s))
     else Inl (Sentinel ErrTranscriptParams))"
  using assms by (auto simp: SessionTranscriptFor_def presentation_bound_def)

lemma transcript_dcapi_presentation:
  assumes "S_Nonce s \<noteq> []" and "origin \<noteq> []" and "thumb \<noteq> []" and "presentation_bound D s m thumb p"
  shows "SessionTranscriptFor D M (p\<lparr>P_Origin := origin\<rparr>) =
    (if P_Format p = FormatMdoc D then Inr (OID4VPDCAPIHandover M origin (S_Nonce s) thumb)
     else Inl (Sentinel ErrTranscriptParams))"
  using assms by (auto simp: SessionTranscriptFor_def presentation_bound_def)

definition sample_mdoc :: "string mdoc_lib" where
  "sample_mdoc = \<lparr>OID4VPHandover = (\<lambda>c n t r. c @ n @ t @ r), OID4VPDCAPIHandover = (\<lambda>u n t. u @ n @ t)\<rparr>"

section \<open>Properties\<close>

text \<open>
  C7: The response code is single-use, and guessing does not burn it. In any sequence of attempts the first
  presentation of the right code succeeds, whatever wrong codes came before it (each of which is
  refused as a mismatch), and every attempt after it, with any code, is refused as consumed.
\<close>

theorem response_code_single_use:
  assumes "S_ResponseCode s \<noteq> []" and "\<not> S_ResponseCodeUsed s" and "S_ResponseCode s \<notin> set wrong"
  shows "redeem_run (Some s) (wrong @ S_ResponseCode s # rest)
    = (replicate (length wrong) (Some (Sentinel ErrResponseCodeMismatch)) @ None
         # replicate (length rest) (Some (Sentinel ErrResponseCodeConsumed)),
       Some (s\<lparr>S_ResponseCodeUsed := True\<rparr>))"
proof -
  have "ConsumeResponseCode (Some s) (S_ResponseCode s) = (None, Some (s\<lparr>S_ResponseCodeUsed := True\<rparr>))"
    using assms by (simp add: ConsumeResponseCode_def)
  then show ?thesis
    using redeem_wrong [OF assms] redeem_used [of "s\<lparr>S_ResponseCodeUsed := True\<rparr>" rest] assms(1)
    by (simp add: redeem_append)
qed

theorem response_code_single_use_witness:
  "fst (redeem_run (Some sample_redirect) [''guess'', ''AAECAw'', ''AAECAw''])
   = [Some (Sentinel ErrResponseCodeMismatch), None, Some (Sentinel ErrResponseCodeConsumed)]"
  using response_code_single_use [of sample_redirect "[''guess'']" "[''AAECAw'']"]
  by (simp add: sample_redirect_def sample_session_def)

text \<open>
  C33: The browser comes back where it should. If the session's return URI is a URL with a scheme, without
  a fragment and with a well-formed query, the redirect URI parses to the same URL except that the
  query is followed by one parameter, \<open>response_code\<close>, whose value is the session's code.
\<close>

theorem redirect_round_trip:
  assumes "RedirectURI (Some s) = Inr uri" and "url_parse ipl (S_ReturnURI s) = Some u"
    and "U_Scheme u \<noteq> []" and "CHR ''#'' \<notin> set (S_ReturnURI s)"
    and "parse_query (U_RawQuery u) = Some vs"
  shows "\<exists>q. url_parse ipl uri = Some (u\<lparr>U_RawQuery := q\<rparr>)
    \<and> parse_query q = Some (vs @ [(''response_code'', S_ResponseCode s)])"
proof -
  let ?c = "''response_code='' @ query_escape (S_ResponseCode s)"
  have clean: "CHR ''#'' \<notin> set ?c" "\<not> list_ex ctl_byte ?c"
    using escaped_clean [of "S_ResponseCode s"] by (simp_all add: ctl_byte_def)
  show ?thesis
  proof (cases "CHR ''?'' \<in> set (S_ReturnURI s)")
    case True
    then have "uri = S_ReturnURI s @ CHR ''&'' # ?c" using assms(1) by (simp add: RedirectURI_Inr)
    moreover have "url_parse ipl (S_ReturnURI s @ CHR ''&'' # ?c)
        = Some (u\<lparr>U_RawQuery := U_RawQuery u @ CHR ''&'' # ?c\<rparr>)"
      using True clean assms by (intro url_parse_extend_query) (simp_all add: ctl_byte_def)
    ultimately show ?thesis
      using parse_query_append [OF assms(5), of ?c] code_query by auto
  next
    case False
    then have "uri = S_ReturnURI s @ CHR ''?'' # ?c" using assms(1) by (simp add: RedirectURI_Inr)
    moreover have "url_parse ipl (S_ReturnURI s @ CHR ''?'' # ?c) = Some (u\<lparr>U_RawQuery := ?c\<rparr>)"
      using False clean assms by (intro url_parse_with_query) simp_all
    moreover have "vs = []"
      using url_parse_no_query [OF assms(2) False assms(4)] assms(5) by simp
    ultimately show ?thesis using code_query by auto
  qed
qed

theorem redirect_round_trip_witness:
  "\<exists>u q. url_parse (\<lambda>_. None) ''https://c.example/cb?x=1&response_code=AAECAw'' = Some u
    \<and> U_RawQuery u = q \<and> parse_query q = Some [(''x'', ''1''), (''response_code'', ''AAECAw'')]"
proof -
  have uri: "RedirectURI (Some sample_redirect)
      = Inr ''https://c.example/cb?x=1&response_code=AAECAw''"
    by code_simp
  have "(case url_parse (\<lambda>_. None) ''https://c.example/cb?x=1'' of
      Some u \<Rightarrow> U_Scheme u = ''https'' \<and> U_RawQuery u = ''x=1'' | None \<Rightarrow> False)"
    by code_simp
  then obtain u where u: "url_parse (\<lambda>_. None) (S_ReturnURI sample_redirect) = Some u"
      "U_Scheme u = ''https''" "U_RawQuery u = ''x=1''"
    by (auto simp: sample_redirect_def split: option.splits)
  have "parse_query (U_RawQuery u) = Some [(''x'', ''1'')]" unfolding u(3) by code_simp
  from redirect_round_trip [OF uri u(1) _ _ this] u(2) show ?thesis
    by (auto simp: sample_redirect_def sample_session_def)
qed

text \<open>
  A return URI with a fragment is accepted at session creation, but then the response code does not
  reach the server: the redirect URI parses to the same scheme, host, path and query as the return URI,
  and only its fragment is longer.
\<close>

theorem redirect_into_fragment:
  assumes "RedirectURI (Some s) = Inr uri" and "https_url D (S_ReturnURI s)"
    and "CHR ''#'' \<in> set (S_ReturnURI s)"
  shows "validHTTPSURL D (S_ReturnURI s) = None
    \<and> (\<exists>u f. url_parse (ParseIPLiteral D) (S_ReturnURI s) = Some u
         \<and> url_parse (ParseIPLiteral D) uri = Some (u\<lparr>U_Fragment := U_Fragment u @ f\<rparr>))"
proof -
  obtain u where u: "url_parse (ParseIPLiteral D) (S_ReturnURI s) = Some u"
    using assms(2) by (auto simp: https_url_def)
  obtain x where uri: "uri = S_ReturnURI s @ x"
    and x: "x = (if CHR ''?'' \<in> set (S_ReturnURI s) then ''&'' else ''?'')
         @ ''response_code='' @ query_escape (S_ResponseCode s)"
    using assms(1) by (simp add: RedirectURI_Inr)
  obtain y where "percent_unescape (query_escape (S_ResponseCode s)) = Some y"
    using percent_unescape_escaped by blast
  then have "\<exists>z. percent_unescape x = Some z" by (simp add: x)
  then show ?thesis
    using u uri url_parse_extend_fragment [OF u assms(3)] assms(2) by (auto simp: validHTTPSURL_None)
qed

theorem redirect_into_fragment_witness:
  "validHTTPSURL sample_deps ''https://c.example/#cb'' = None"
proof -
  have "validHTTPSURL sample_deps ''https://c.example/#cb'' = None" by code_simp
  then have ok: "https_url sample_deps (S_ReturnURI (sample_redirect\<lparr>S_ReturnURI := ''https://c.example/#cb''\<rparr>))"
    by (simp add: validHTTPSURL_None)
  have "\<exists>uri. RedirectURI (Some (sample_redirect\<lparr>S_ReturnURI := ''https://c.example/#cb''\<rparr>)) = Inr uri"
    by (simp add: RedirectURI_Inr sample_redirect_def sample_session_def flow_defs)
  then obtain uri where
      "RedirectURI (Some (sample_redirect\<lparr>S_ReturnURI := ''https://c.example/#cb''\<rparr>)) = Inr uri" ..
  from redirect_into_fragment [OF this ok] show ?thesis by simp
qed

text \<open>
  C25: Presentations are ready for verification. Every mdoc presentation of a \<open>direct_post.jwt\<close> response
  gives the session transcript over the session's client id, nonce and response endpoint and the
  thumbprint of the session's own key; a presentation of another format gives an error.
\<close>

theorem transcript_of_response:
  assumes "ProcessResponse D e (Some s) body w = (Inr (prs, c), so', w')" and "p \<in> set prs"
    and "ephemeralPrivateKey D s = Inr priv" and "JWKThumbprintBytes D (sk_public priv) = Inr thumb"
    and "thumb \<noteq> []" and "S_Nonce s \<noteq> []" and "S_ClientID s \<noteq> []" and "S_ResponseURI s \<noteq> []"
  shows "SessionTranscriptFor D M p =
    (if P_Format p = FormatMdoc D
     then Inr (OID4VPHandover M (S_ClientID s) (S_Nonce s) thumb (S_ResponseURI s))
     else Inl (Sentinel ErrTranscriptParams))"
proof -
  obtain payload th where acc: "acceptable D e s (e_clock e (w_ticks w)) body payload th"
    and prs: "prs = presentations_of D s (vp_entries payload) th"
    using assms(1) by (rule ProcessResponse_Inr)
  have ok: "vp_ok D s (vp_entries payload)" and th: "th = thumb"
    using acc assms(3,4) by (auto simp: acceptable_def open_response_Inr)
  have "presentation_bound D s (vp_entries payload) thumb p"
    using presentations_bound [OF ok] assms(2) unfolding prs th by blast
  then show ?thesis by (rule transcript_presentation [OF assms(6-8,5)])
qed

theorem transcript_of_response_witness:
  "\<exists>prs c so w. ProcessResponse sample_deps sample_engine (Some sample_session) sample_body sample_world
      = (Inr (prs, c), so, w)
    \<and> (\<forall>p \<in> set prs. P_Format p = ''mso_mdoc'' \<longrightarrow> SessionTranscriptFor sample_deps sample_mdoc p
         = Inr ''x509_san_dns:v.examplenoncethumbhttps://v.example/r'')"
proof -
  obtain prs c so w where ok:
      "ProcessResponse sample_deps sample_engine (Some sample_session) sample_body sample_world
         = (Inr (prs, c), so, w)"
    by (rule sample_response)
  have "SessionTranscriptFor sample_deps sample_mdoc p =
      (if P_Format p = FormatMdoc sample_deps
       then Inr (OID4VPHandover sample_mdoc (S_ClientID sample_session) (S_Nonce sample_session) ''thumb''
              (S_ResponseURI sample_session))
       else Inl (Sentinel ErrTranscriptParams))" if "p \<in> set prs" for p
    by (rule transcript_of_response [OF ok that, of "sample_key ''key-0001''"])
      (simp_all add: sample_defs ephemeralPrivateKey_def)
  with ok show ?thesis by (auto simp: sample_defs sample_mdoc_def)
qed

text \<open>
  The same for the Digital Credentials API: the transcript of an mdoc presentation is the one over the
  calling origin, which is an expected one, the session's nonce and the key's thumbprint, and never the
  one over a response endpoint.
\<close>

theorem transcript_of_dcapi_response:
  assumes "fst (ProcessDCAPIResponse D e (Some s) origin data w) = Inr prs" and "p \<in> set prs"
    and "ephemeralPrivateKey D s = Inr priv" and "JWKThumbprintBytes D (sk_public priv) = Inr thumb"
    and "thumb \<noteq> []" and "S_Nonce s \<noteq> []" and "origin \<noteq> []"
  shows "origin \<in> set (S_ExpectedOrigins s) \<and> SessionTranscriptFor D M p =
    (if P_Format p = FormatMdoc D then Inr (OID4VPDCAPIHandover M origin (S_Nonce s) thumb)
     else Inl (Sentinel ErrTranscriptParams))"
proof -
  obtain jwe payload th where org: "origin \<in> set (S_ExpectedOrigins s)"
    and op: "open_response D s jwe = Inr (payload, th)" and ok: "vp_ok D s (vp_entries payload)"
    and prs: "prs = map (\<lambda>p. p\<lparr>P_Origin := origin\<rparr>) (presentations_of D s (vp_entries payload) th)"
    using assms(1) unfolding ProcessDCAPIResponse_Inr by blast
  have th: "th = thumb" using op assms(3,4) by (auto simp: open_response_Inr)
  obtain p' where p: "p = p'\<lparr>P_Origin := origin\<rparr>"
    and p': "p' \<in> set (presentations_of D s (vp_entries payload) thumb)"
    using assms(2) unfolding prs th by auto
  show ?thesis
    using transcript_dcapi_presentation [OF assms(6,7,5) presentations_bound [OF ok p'], of M] org
    by (simp add: p)
qed

theorem transcript_of_dcapi_response_witness:
  "\<exists>prs. fst (ProcessDCAPIResponse sample_deps sample_engine (Some sample_dcapi_done)
        ''https://shop.example'' sample_dcapi_body sample_world) = Inr prs \<and> prs \<noteq> []
    \<and> (\<forall>p \<in> set prs. SessionTranscriptFor sample_deps sample_mdoc p
         = (if P_Format p = ''mso_mdoc'' then Inr ''https://shop.examplenoncethumb''
            else Inl (Sentinel ErrTranscriptParams)))"
proof -
  obtain prs where ok: "fst (ProcessDCAPIResponse sample_deps sample_engine (Some sample_dcapi_done)
        ''https://shop.example'' sample_dcapi_body sample_world) = Inr prs" "prs \<noteq> []"
    using sample_dcapi_response_ok by (auto split: prod.splits sum.splits)
  have "SessionTranscriptFor sample_deps sample_mdoc p
      = (if P_Format p = FormatMdoc sample_deps
         then Inr (OID4VPDCAPIHandover sample_mdoc ''https://shop.example''
           (S_Nonce sample_dcapi_done) ''thumb'')
         else Inl (Sentinel ErrTranscriptParams))" if "p \<in> set prs" for p
    by (rule transcript_of_dcapi_response [OF ok(1) that, of "sample_key ''key-0001''", THEN conjunct2])
      (simp_all add: sample_dcapi_done_def sample_dcapi_def sample_defs ephemeralPrivateKey_def)
  with ok show ?thesis
    by (auto simp: sample_dcapi_done_def sample_dcapi_def sample_defs sample_mdoc_def)
qed

text \<open>
  C40: Wallet metadata is stored verbatim or not at all. It is stored exactly when it is nonempty, at most
  64 KiB and begins with a JSON object that no further element follows; otherwise the session is
  unchanged and the error is a client error.
\<close>

theorem wallet_metadata_absorbed:
  "(case AbsorbWalletMetadata (Some s) raw of
      (None, so') \<Rightarrow> so' = Some (s\<lparr>S_WalletMetadata := raw\<rparr>)
        \<and> raw \<noteq> [] \<and> length raw \<le> 65536
        \<and> (\<exists>ms rest. json_prefix raw = Some (JObj ms, rest) \<and> \<not> json_more rest)
    | (Some er, so') \<Rightarrow> so' = Some s \<and> fst (ErrorResponse (Some er)) = 400
        \<and> \<not> (raw \<noteq> [] \<and> length raw \<le> 65536
             \<and> (\<exists>ms rest. json_prefix raw = Some (JObj ms, rest) \<and> \<not> json_more rest)))"
proof -
  obtain r so' where call: "AbsorbWalletMetadata (Some s) raw = (r, so')"
    by (cases "AbsorbWalletMetadata (Some s) raw") auto
  show ?thesis
  proof (cases r)
    case None
    with call show ?thesis
      using AbsorbWalletMetadata_ok [of s raw so'] by (simp add: maxWalletMetadataBytes_def)
  next
    case (Some er)
    with call have "so' = Some s" "er = failq ErrWalletMetadataInvalid []"
      by (auto simp: AbsorbWalletMetadata_def split: if_splits option.splits prod.splits)
    moreover have "\<not> (raw \<noteq> [] \<and> length raw \<le> 65536
        \<and> (\<exists>ms rest. json_prefix raw = Some (JObj ms, rest) \<and> \<not> json_more rest))"
      using call Some AbsorbWalletMetadata_ok [of s raw "Some (s\<lparr>S_WalletMetadata := raw\<rparr>)"]
      by (auto simp: maxWalletMetadataBytes_def)
    ultimately show ?thesis using call Some by (simp add: ErrorResponse_single status_spec_def)
  qed
qed

text \<open>
  That no further element follows is not that nothing follows: a document with a closing bracket and
  garbage behind it is stored, garbage included, though the check is meant to refuse trailing data.
\<close>

theorem wallet_metadata_trailing_bracket:
  "AbsorbWalletMetadata (Some s) ''{}] not JSON''
     = (None, Some (s\<lparr>S_WalletMetadata := ''{}] not JSON''\<rparr>))
   \<and> AbsorbWalletMetadata (Some s) ''{} not JSON'' = (Some (failq ErrWalletMetadataInvalid []), Some s)"
proof -
  have "json_prefix ''{}] not JSON'' = Some (JObj [], ''] not JSON'')" "\<not> json_more ''] not JSON''"
    and more: "json_prefix ''{} not JSON'' = Some (JObj [], '' not JSON'')" "json_more '' not JSON''"
    by code_simp+
  then have "AbsorbWalletMetadata (Some s) ''{}] not JSON''
      = (None, Some (s\<lparr>S_WalletMetadata := ''{}] not JSON''\<rparr>))"
    by (simp add: AbsorbWalletMetadata_ok maxWalletMetadataBytes_def)
  then show ?thesis
    using more by (simp add: AbsorbWalletMetadata_def maxWalletMetadataBytes_def into_raw_map_def)
qed

end
