(* ===== verification/Stored_Sessions.thy ===== *)
theory Stored_Sessions
  imports Same_Device Session_Codec
begin

text \<open>
  The sessions of an engine fit the store. A session fits if it has an id and valid strings and can be
  marshalled; the engine makes such sessions, every operation of the engine keeps them so, and a store
  that is used with them alone is in order (the contract of \<^theory_text>\<open>Store\<close>).
\<close>

section \<open>Sessions that fit\<close>

definition json_fit :: "('q, 'r) json_lib \<Rightarrow> ('q, 'r) session \<Rightarrow> bool" where
  "json_fit L s \<longleftrightarrow> (\<exists>raw. session_marshal L s = Inr raw) \<and> parts_come_back L s \<and> utf8_session s
     \<and> S_ID s \<noteq> []"

lemma json_fit_storable: "json_fit L s \<Longrightarrow> storable (json_codec L) s"
  by (auto simp: json_fit_def intro: json_storable)

text \<open>Whether a session can be marshalled depends on its query, its registration and its times only.\<close>

definition times_fit :: "('q, 'r) json_lib \<Rightarrow> ('q, 'r) session \<Rightarrow> bool" where
  "times_fit L s \<longleftrightarrow> (\<exists>x. time_text (Offset L (S_CreatedAt s)) (S_CreatedAt s) = Inr x)
     \<and> (\<exists>x. time_text (Offset L (S_ExpiresAt s)) (S_ExpiresAt s) = Inr x)"

definition parts_marshal :: "('q, 'r) json_lib \<Rightarrow> ('q, 'r) session \<Rightarrow> bool" where
  "parts_marshal L s \<longleftrightarrow> (\<exists>v. QueryTo L (S_Query s) = Inr v) \<and> (\<exists>v. RefTo L (S_Registration s) = Inr v)"

lemma session_marshal_iff: "(\<exists>raw. session_marshal L s = Inr raw) \<longleftrightarrow> parts_marshal L s \<and> times_fit L s"
  by (auto simp: session_marshal_def bindR_Inr_iff parts_marshal_def times_fit_def)

text \<open>An update of other fields that leaves the strings valid keeps a session fit.\<close>

lemma json_fit_update:
  assumes "json_fit L s" and "S_Query t = S_Query s" and "S_Registration t = S_Registration s"
    and "S_CreatedAt t = S_CreatedAt s" and "S_ExpiresAt t = S_ExpiresAt s" and "S_ID t = S_ID s"
    and "utf8_session t"
  shows "json_fit L t"
  using assms by (simp add: json_fit_def session_marshal_iff parts_marshal_def times_fit_def parts_come_back_def)

lemma utf8_token: "is_utf8 (b64_encode bs)"
  by (rule is_utf8_ascii [OF b64_encode_ascii])

lemma json_fit_flags:
  assumes "json_fit L s"
  shows "json_fit L (s\<lparr>S_RequestObjectServed := b\<rparr>)" and "json_fit L (s\<lparr>S_Consumed := b\<rparr>)"
    and "json_fit L (s\<lparr>S_ResponseCodeUsed := b\<rparr>)" and "json_fit L (s\<lparr>S_WalletMetadata := x\<rparr>)"
    and "is_utf8 c \<Longrightarrow> json_fit L (s\<lparr>S_ResponseCode := c, S_ResponseCodeUsed := b\<rparr>)"
proof -
  have u: "utf8_session s" using assms by (simp add: json_fit_def)
  show "json_fit L (s\<lparr>S_RequestObjectServed := b\<rparr>)" "json_fit L (s\<lparr>S_Consumed := b\<rparr>)"
    "json_fit L (s\<lparr>S_ResponseCodeUsed := b\<rparr>)" "json_fit L (s\<lparr>S_WalletMetadata := x\<rparr>)"
    "is_utf8 c \<Longrightarrow> json_fit L (s\<lparr>S_ResponseCode := c, S_ResponseCodeUsed := b\<rparr>)"
    using u by (auto intro!: json_fit_update [OF assms] simp: utf8_session_def)
qed

lemma sample_fit: "json_fit sample_json sample_session"
proof -
  have "utf8_session sample_session" by code_simp
  moreover obtain raw raw' where "session_marshal sample_json sample_session = Inr raw"
      "session_marshal sample_json sample_latin1 = Inr raw'"
    by (rule sample_marshal)
  ultimately show ?thesis
    using sample_session_parts by (simp add: json_fit_def sample_session_def)
qed

lemma sample_writable:
  assumes "NewSession sample_deps sample_engine sample_spec w = (Inr (s, iv), w')"
  shows "\<exists>raw. session_marshal sample_json s = Inr raw"
proof -
  have "e_clock sample_engine n = 0" "C_SessionTTL (e_cfg sample_engine) = 300000000000" for n
    by (simp_all add: sample_engine_def make_engine_def sample_cfg_def sample_deps_def DefaultSessionTTL_def Let_def)
  then have "S_CreatedAt s = 0" "S_ExpiresAt s = 300000000000"
    using assms by (auto elim!: NewSession_Inr simp: make_session_def)
  then show ?thesis
    by (simp add: session_marshal_def sample_json_def time_text_def days_before_def)
qed

section \<open>The store operations on a session that fits\<close>

definition stores :: "('q, 'r) json_lib \<Rightarrow> mem \<Rightarrow> ('q, 'r) session \<Rightarrow> bool" where
  "stores L m s \<longleftrightarrow> (\<exists>raw. m (S_ID s) = Some raw \<and> session_unmarshal L raw = Inr s)"

lemma fit_marshal:
  assumes "json_fit L s"
  obtains raw where "session_marshal L s = Inr raw" "session_unmarshal L raw = Inr s" "S_ID s \<noteq> []"
  using json_fit_storable [OF assms] by (auto simp: storable_def survives_def json_codec_def split: sum.splits)

lemma fit_save:
  assumes "json_fit L s"
  obtains m' where "mem_Save (json_codec L) (Some s) m = (None, m')" "stores L m' s"
proof -
  obtain raw where "session_marshal L s = Inr raw" "session_unmarshal L raw = Inr s" "S_ID s \<noteq> []"
    using assms by (rule fit_marshal)
  then show ?thesis
    using that [of "m(S_ID s \<mapsto> raw)"] by (simp add: mem_Save_def json_codec_def stores_def)
qed

lemma fit_load: "stores L m s \<Longrightarrow> now < S_ExpiresAt s \<Longrightarrow> mem_Load (json_codec L) now (S_ID s) m = (Inr s, m)"
  by (auto simp: stores_def mem_Load_def mem_load_def json_codec_def)

lemma fit_consume:
  assumes "stores L m s" and "json_fit L s" and "now < S_ExpiresAt s" and "\<not> S_Consumed s"
  obtains m' where "mem_ConsumeOnce (json_codec L) now (S_ID s) m = (Inr (s\<lparr>S_Consumed := True\<rparr>), m')"
    "stores L m' (s\<lparr>S_Consumed := True\<rparr>)"
proof -
  obtain raw where raw: "session_marshal L (s\<lparr>S_Consumed := True\<rparr>) = Inr raw"
      "session_unmarshal L raw = Inr (s\<lparr>S_Consumed := True\<rparr>)"
    using json_fit_flags(2) [OF assms(2)] by (rule fit_marshal)
  then show ?thesis
    using that [of "m(S_ID s \<mapsto> raw)"] assms fit_load [OF assms(1,3)]
    by (simp add: mem_ConsumeOnce_def mem_Load_def json_codec_def stores_def)
qed

section \<open>Properties\<close>

text \<open>
  C38: Sessions are made storable. If the strings that the operator and the service supply are valid
  UTF-8, the query and the registration have a JSON form that is read back, and the times lie in the years
  that JSON times can have, a new session fits the store: \<open>Save\<close> accepts it and \<open>Load\<close> gives it back.
\<close>

theorem created_session_storable:
  assumes "NewSession D e spec w = (Inr (s, iv), w')" and "is_utf8 (e_clientID e)"
    and "list_all is_utf8 (R_ResponseURI spec # R_ReturnURI spec # R_ExpectedOrigins spec)"
    and "parts_come_back L s" and "parts_marshal L s" and "times_fit L s"
  shows "json_fit L s \<and> storable (json_codec L) s
    \<and> (\<forall>m. \<exists>m'. mem_Save (json_codec L) (Some s) m = (None, m')
         \<and> (\<forall>now < S_ExpiresAt s. mem_Load (json_codec L) now (S_ID s) m' = (Inr s, m')))"
proof -
  from assms(1) obtain sid w1 nonce w2 state w3 der t where n: "spec_ok D e spec"
      "randToken (e_rand e) tokenBytes w = (Inr sid, w1)" "randToken (e_rand e) tokenBytes w1 = (Inr nonce, w2)"
      "randToken (e_rand e) tokenBytes w2 = (Inr state, w3)" "s = make_session e spec sid nonce state der t"
    by (rule NewSession_Inr) blast
  have tok: "is_utf8 sid" "is_utf8 nonce" "is_utf8 state" "sid \<noteq> []"
    using n(2-4) by (auto dest!: randToken_token simp: utf8_token tokenBytes_def)
  have "R_Flow spec \<in> {SameDevice, CrossDevice, DCAPI}"
    using n(1) by (auto simp: spec_ok_def flow_ok_def)
  then have "is_utf8 (R_Flow spec)" by (auto simp: flow_defs intro!: is_utf8_ascii)
  with tok assms(2,3) have "utf8_session s"
    by (simp add: utf8_session_def n(5) make_session_def is_utf8_def [of "[]"])
  with assms(4-6) tok(4) have fit: "json_fit L s"
    by (simp add: json_fit_def session_marshal_iff n(5) make_session_def)
  then have st: "storable (json_codec L) s" by (rule json_fit_storable)
  then obtain raw where raw: "c_Marshal (json_codec L) s = Inr raw" "c_Unmarshal (json_codec L) raw = Inr s"
      "S_ID s \<noteq> []"
    by (auto simp: storable_def survives_def split: sum.splits)
  have "\<exists>m'. mem_Save (json_codec L) (Some s) m = (None, m')
      \<and> (\<forall>now < S_ExpiresAt s. mem_Load (json_codec L) now (S_ID s) m' = (Inr s, m'))" for m
    using raw by (simp add: mem_Save_def mem_Load_def mem_load_def)
  with fit st show ?thesis by blast
qed

theorem created_session_storable_witness:
  "\<exists>s iv w. NewSession sample_deps sample_engine sample_spec sample_world = (Inr (s, iv), w)
     \<and> json_fit sample_json s"
proof -
  obtain s iv w where ok: "NewSession sample_deps sample_engine sample_spec sample_world = (Inr (s, iv), w)"
    by (rule sample_new_session)
  have q: "S_Query s = sample_query" "S_Registration s = ''EX-1''"
    using ok by (auto elim!: NewSession_Inr simp: make_session_def sample_spec_def)
  have p: "parts_come_back sample_json s"
    using sample_session_parts unfolding parts_come_back_def q by (simp add: sample_session_def)
  have m: "parts_marshal sample_json s" "times_fit sample_json s"
    using sample_writable [OF ok] unfolding session_marshal_iff by simp_all
  have "e_clientID sample_engine = ''x509_san_dns:v.example''"
    using sample_built by (simp add: sample_engine_def ClientIDPrefixX509SANDNS_def sample_cfg_def)
  then have c: "is_utf8 (e_clientID sample_engine)" by (simp add: is_utf8_def)
  have u: "list_all is_utf8 (R_ResponseURI sample_spec # R_ReturnURI sample_spec # R_ExpectedOrigins sample_spec)"
    by (simp add: sample_spec_def is_utf8_def)
  from created_session_storable [OF ok c u p m] ok show ?thesis by blast
qed

text \<open>
  C17: Every operation keeps a session storable, whatever it is called with and whether it succeeds: after
  \<open>RequestObjectJWT\<close>, \<open>ProcessResponse\<close>, \<open>ConsumeResponseCode\<close> and \<open>AbsorbWalletMetadata\<close> the session
  in the caller's hands still fits the store, wallet metadata of any bytes included.
\<close>

theorem operations_keep_storable:
  assumes "json_fit L s"
  shows "(\<exists>t. fst (snd (RequestObjectJWT D e (Some s) w)) = Some t \<and> json_fit L t)
    \<and> (\<exists>t. fst (snd (ProcessResponse D e (Some s) body w)) = Some t \<and> json_fit L t)
    \<and> (\<exists>t. snd (ConsumeResponseCode (Some s) code) = Some t \<and> json_fit L t)
    \<and> (\<exists>t. snd (AbsorbWalletMetadata (Some s) raw) = Some t \<and> json_fit L t)"
proof (intro conjI)
  show "\<exists>t. fst (snd (RequestObjectJWT D e (Some s) w)) = Some t \<and> json_fit L t"
    using assms by (auto simp: RequestObjectJWT_def tick_def json_fit_flags split: sum.split prod.split)
next
  obtain r so w' where call: "ProcessResponse D e (Some s) body w = (r, so, w')"
    by (cases "ProcessResponse D e (Some s) body w") auto
  show "\<exists>t. fst (snd (ProcessResponse D e (Some s) body w)) = Some t \<and> json_fit L t"
  proof (cases r)
    case (Inl er)
    then have "so = Some s" using call ProcessResponse_Inl by blast
    with call assms show ?thesis by simp
  next
    case (Inr pc)
    obtain prs c where "pc = (prs, c)" by (cases pc) auto
    with call Inr have "ProcessResponse D e (Some s) body w = (Inr (prs, c), so, w')" by simp
    then have "so = Some s \<or> (\<exists>bs. so = Some (s\<lparr>S_ResponseCode := b64_encode bs, S_ResponseCodeUsed := False\<rparr>))"
      by (rule ProcessResponse_Inr) (auto split: if_splits dest!: randToken_token)
    with call assms show ?thesis by (auto simp: json_fit_flags utf8_token)
  qed
next
  show "\<exists>t. snd (ConsumeResponseCode (Some s) code) = Some t \<and> json_fit L t"
    using assms by (simp add: ConsumeResponseCode_def json_fit_flags)
  show "\<exists>t. snd (AbsorbWalletMetadata (Some s) raw) = Some t \<and> json_fit L t"
    using assms by (auto simp: AbsorbWalletMetadata_def json_fit_flags split: option.split prod.split)
qed

theorem operations_keep_storable_witness:
  "json_fit sample_json sample_session
   \<and> (\<exists>t. snd (AbsorbWalletMetadata (Some sample_session) ''{}'') = Some t \<and> json_fit sample_json t)"
  using sample_fit operations_keep_storable [OF sample_fit] by blast

end
