(* ===== verification/Protocol.thy ===== *)
theory Protocol
  imports Stored_Sessions
begin

text \<open>
  The library as a service uses it: the handlers the documentation prescribes (create and save; load,
  build the request object, save; consume, process, save; load, redeem, save), each run as a whole,
  over the in-memory store. A step relation runs the handlers in any order on any input; the
  invariant ties every stored session to the trace of what the service has handed out, and gives the
  guarantees the parts make together, as long as no session id is drawn twice (creation saves over a
  session of the same id). The handlers that succeed are put together to a run that goes all the way.
  Interleaved handlers are not covered here but in \<^theory_text>\<open>Concurrency\<close>.
\<close>

section \<open>Handlers\<close>

datatype event =
    Created string
  | Fetched string
  | Processed string string
  | Redeemed string string

record service =
  sv_mem :: mem
  sv_world :: world
  sv_trace :: "event list"

text \<open>Save what a handler has made of a session, and note the event if that succeeds.\<close>

definition svc_save ::
    "('q, 'r) codec \<Rightarrow> ('q, 'r) session option \<Rightarrow> event \<Rightarrow> service \<Rightarrow> service" where
  "svc_save C so ev sv =
     (case mem_Save C so (sv_mem sv) of
        (Some er, m) \<Rightarrow> sv\<lparr>sv_mem := m\<rparr>
      | (None, m) \<Rightarrow> sv\<lparr>sv_mem := m, sv_trace := ev # sv_trace sv\<rparr>)"

definition svc_create ::
    "('q, 'r) deps \<Rightarrow> ('q, 'r) codec \<Rightarrow> engine \<Rightarrow> ('q, 'r) request_spec \<Rightarrow> service \<Rightarrow> service" where
  "svc_create D C e spec sv =
     (case NewSession D e spec (sv_world sv) of
        (Inl er, w) \<Rightarrow> sv\<lparr>sv_world := w\<rparr>
      | (Inr (s, iv), w) \<Rightarrow> svc_save C (Some s) (Created (S_ID s)) (sv\<lparr>sv_world := w\<rparr>))"

definition svc_fetch ::
    "('q, 'r) deps \<Rightarrow> ('q, 'r) codec \<Rightarrow> engine \<Rightarrow> go_time \<Rightarrow> string \<Rightarrow> service \<Rightarrow> service" where
  "svc_fetch D C e now i sv =
     (case mem_Load C now i (sv_mem sv) of
        (Inl er, m) \<Rightarrow> sv\<lparr>sv_mem := m\<rparr>
      | (Inr s, m) \<Rightarrow>
          (case RequestObjectJWT D e (Some s) (sv_world sv) of
             (Inl er, so, w) \<Rightarrow> sv\<lparr>sv_mem := m, sv_world := w\<rparr>
           | (Inr tok, so, w) \<Rightarrow> svc_save C so (Fetched i) (sv\<lparr>sv_mem := m, sv_world := w\<rparr>)))"

text \<open>The presentations are handed out when they have been made; the save stores the response code.\<close>

definition svc_respond ::
    "('q, 'r) deps \<Rightarrow> ('q, 'r) codec \<Rightarrow> engine \<Rightarrow> go_time \<Rightarrow> string \<Rightarrow> bytes \<Rightarrow> service \<Rightarrow> service" where
  "svc_respond D C e now i body sv =
     (case mem_ConsumeOnce C now i (sv_mem sv) of
        (Inl er, m) \<Rightarrow> sv\<lparr>sv_mem := m\<rparr>
      | (Inr s, m) \<Rightarrow>
          (case ProcessResponse D e (Some s) body (sv_world sv) of
             (Inl er, so, w) \<Rightarrow> sv\<lparr>sv_mem := m, sv_world := w\<rparr>
           | (Inr (prs, c), so, w) \<Rightarrow>
               (case mem_Save C so m of
                  (r, m') \<Rightarrow> sv\<lparr>sv_mem := m', sv_world := w, sv_trace := Processed i c # sv_trace sv\<rparr>)))"

definition svc_redeem ::
    "('q, 'r) codec \<Rightarrow> go_time \<Rightarrow> string \<Rightarrow> string \<Rightarrow> service \<Rightarrow> service" where
  "svc_redeem C now i code sv =
     (case mem_Load C now i (sv_mem sv) of
        (Inl er, m) \<Rightarrow> sv\<lparr>sv_mem := m\<rparr>
      | (Inr s, m) \<Rightarrow>
          (case ConsumeResponseCode (Some s) code of
             (Some er, so) \<Rightarrow> sv\<lparr>sv_mem := m\<rparr>
           | (None, so) \<Rightarrow> svc_save C so (Redeemed i code) (sv\<lparr>sv_mem := m\<rparr>)))"

section \<open>Runs\<close>

inductive step :: "('q, 'r) deps \<Rightarrow> ('q, 'r) codec \<Rightarrow> engine \<Rightarrow> service \<Rightarrow> service \<Rightarrow> bool"
  for D C e where
  create: "step D C e sv (svc_create D C e spec sv)"
| fetch: "step D C e sv (svc_fetch D C e now i sv)"
| respond: "step D C e sv (svc_respond D C e now i body sv)"
| redeem: "step D C e sv (svc_redeem C now i code sv)"

definition start :: "world \<Rightarrow> service" where
  "start w = \<lparr>sv_mem = NewMemStore, sv_world = w, sv_trace = []\<rparr>"

inductive reachable :: "('q, 'r) deps \<Rightarrow> ('q, 'r) codec \<Rightarrow> engine \<Rightarrow> service \<Rightarrow> bool"
  for D C e where
  init: "reachable D C e (start w)"
| more: "reachable D C e sv \<Longrightarrow> step D C e sv sv' \<Longrightarrow> reachable D C e sv'"

text \<open>A handler adds to the trace and takes nothing back.\<close>

lemma svc_save_trace: "\<exists>evs. sv_trace (svc_save C so ev sv) = evs @ sv_trace sv"
  by (auto simp: svc_save_def split: prod.split option.split)

lemma step_trace: "step D C e sv sv' \<Longrightarrow> \<exists>evs. sv_trace sv' = evs @ sv_trace sv"
proof (induction rule: step.induct)
  case (create sv spec)
  show ?case
    using svc_save_trace [of C _ _ "sv\<lparr>sv_world := _\<rparr>"]
    by (auto simp: svc_create_def split: prod.split sum.split)
next
  case (fetch sv now i)
  show ?case
    using svc_save_trace [of C _ _ "sv\<lparr>sv_mem := _, sv_world := _\<rparr>"]
    by (auto simp: svc_fetch_def split: prod.split sum.split)
next
  case (respond sv now i body)
  show ?case by (auto simp: svc_respond_def split: prod.split sum.split)
next
  case (redeem sv now i code)
  show ?case
    using svc_save_trace [of C _ _ "sv\<lparr>sv_mem := _\<rparr>"]
    by (auto simp: svc_redeem_def split: prod.split sum.split option.split)
qed

section \<open>Legal histories\<close>

text \<open>
  The specification, without sessions and stores: what may have happened, the latest event first. A
  session is served once and processed once, each after its creation; a code is redeemed once, after it
  was handed out with the presentations. That ids are not drawn twice, which is what 128 random bits are
  relied on for, is not part of it but assumed: \<open>distinct (created tr)\<close>.
\<close>

fun happened :: "string \<Rightarrow> event list \<Rightarrow> bool" where
  "happened i [] = False"
| "happened i (Processed j c # tr) = (i = j \<or> happened i tr)"
| "happened i (ev # tr) = happened i tr"

fun redeemed :: "string \<Rightarrow> event list \<Rightarrow> bool" where
  "redeemed i [] = False"
| "redeemed i (Redeemed j c # tr) = (i = j \<or> redeemed i tr)"
| "redeemed i (ev # tr) = redeemed i tr"

fun history :: "event list \<Rightarrow> bool" where
  "history [] = True"
| "history (Created i # tr) = history tr"
| "history (Fetched i # tr) = (history tr \<and> Created i \<in> set tr \<and> Fetched i \<notin> set tr)"
| "history (Processed i c # tr) = (history tr \<and> Created i \<in> set tr \<and> \<not> happened i tr)"
| "history (Redeemed i c # tr) =
     (history tr \<and> c \<noteq> [] \<and> Processed i c \<in> set tr \<and> \<not> redeemed i tr)"

fun created :: "event list \<Rightarrow> string list" where
  "created [] = []"
| "created (Created i # tr) = i # created tr"
| "created (ev # tr) = created tr"

lemma created_append: "created (evs @ tr) = created evs @ created tr"
  by (induction evs rule: created.induct) simp_all

lemma created_set: "i \<in> set (created tr) \<longleftrightarrow> Created i \<in> set tr"
  by (induction tr rule: created.induct) auto

lemma happened_iff: "happened i tr \<longleftrightarrow> (\<exists>c. Processed i c \<in> set tr)"
  by (induction i tr rule: happened.induct) auto

lemma redeemed_iff: "redeemed i tr \<longleftrightarrow> (\<exists>c. Redeemed i c \<in> set tr)"
  by (induction i tr rule: redeemed.induct) auto

fun event_id :: "event \<Rightarrow> string" where
  "event_id (Created i) = i"
| "event_id (Fetched i) = i"
| "event_id (Processed i c) = i"
| "event_id (Redeemed i c) = i"

lemma history_created: "history tr \<Longrightarrow> ev \<in> set tr \<Longrightarrow> Created (event_id ev) \<in> set tr"
proof (induction tr arbitrary: ev rule: history.induct)
  case (5 i c tr)
  then have "Created i \<in> set tr" using "5.IH" [of "Processed i c"] by simp
  with 5 show ?case by auto
qed auto

section \<open>The invariant\<close>

text \<open>What a stored session knows of what has been done with it.\<close>

definition knows :: "event list \<Rightarrow> ('q, 'r) session \<Rightarrow> bool" where
  "knows tr s \<longleftrightarrow>
     ascii (S_ID s) \<and> ascii (S_ResponseCode s) \<and> Created (S_ID s) \<in> set tr
     \<and> (Fetched (S_ID s) \<in> set tr \<longrightarrow> S_RequestObjectServed s)
     \<and> (happened (S_ID s) tr \<longrightarrow> S_Consumed s)
     \<and> (S_ResponseCode s \<noteq> [] \<longrightarrow> Processed (S_ID s) (S_ResponseCode s) \<in> set tr)
     \<and> (redeemed (S_ID s) tr \<longrightarrow> S_ResponseCodeUsed s \<and> S_ResponseCode s \<noteq> [])"

definition mem_knows :: "('q, 'r) codec \<Rightarrow> event list \<Rightarrow> mem \<Rightarrow> bool" where
  "mem_knows C tr m \<longleftrightarrow>
     (\<forall>i raw. m i = Some raw \<longrightarrow> (\<exists>s. c_Unmarshal C raw = Inr s \<and> S_ID s = i \<and> knows tr s))"

definition service_inv :: "('q, 'r) codec \<Rightarrow> service \<Rightarrow> bool" where
  "service_inv C sv \<longleftrightarrow> history (sv_trace sv) \<and> mem_knows C (sv_trace sv) (sv_mem sv)"

lemma knows_alike: "alike t s \<Longrightarrow> knows tr t = knows tr s"
  by (simp add: knows_def alike_def)

section \<open>Store operations\<close>

lemma mem_Load_Inr: "mem_Load C now i m = (Inr s, m') \<Longrightarrow>
    m' = m \<and> (\<exists>raw. m i = Some raw \<and> c_Unmarshal C raw = Inr s)"
  by (auto simp: mem_Load_def mem_load_def split: option.splits sum.splits if_splits)

lemma mem_Load_Inl: "mem_Load C now i m = (Inl er, m') \<Longrightarrow> m' \<subseteq>\<^sub>m m"
  by (auto simp: mem_Load_def mem_load_def map_le_def split: option.splits sum.splits if_splits)

lemma mem_ConsumeOnce_Inr: "mem_ConsumeOnce C now i m = (Inr s', m') \<Longrightarrow>
    \<exists>raw s raw'. m i = Some raw \<and> c_Unmarshal C raw = Inr s \<and> \<not> S_Consumed s
      \<and> s' = s\<lparr>S_Consumed := True\<rparr> \<and> c_Marshal C s' = Inr raw' \<and> m' = m(i \<mapsto> raw')"
  by (auto simp: mem_ConsumeOnce_def mem_load_def Let_def
      split: option.splits sum.splits if_splits prod.splits)

lemma mem_ConsumeOnce_Inl: "mem_ConsumeOnce C now i m = (Inl er, m') \<Longrightarrow> m' \<subseteq>\<^sub>m m"
  by (auto simp: mem_ConsumeOnce_def mem_load_def Let_def map_le_def
      split: option.splits sum.splits if_splits prod.splits)

lemma mem_Save_None: "mem_Save C so m = (None, m') \<Longrightarrow>
    \<exists>s raw. so = Some s \<and> c_Marshal C s = Inr raw \<and> m' = m(S_ID s \<mapsto> raw)"
  by (auto simp: mem_Save_def split: option.splits sum.splits if_splits)

lemma mem_Save_Some: "mem_Save C so m = (Some er, m') \<Longrightarrow> m' = m"
  by (auto simp: mem_Save_def split: option.splits sum.splits if_splits)

section \<open>Keeping the invariant\<close>

lemma mem_knowsD: "mem_knows C tr m \<Longrightarrow> m i = Some raw \<Longrightarrow> c_Unmarshal C raw = Inr s \<Longrightarrow>
    S_ID s = i \<and> knows tr s"
  by (fastforce simp: mem_knows_def)

lemma mem_knows_le: "mem_knows C tr m \<Longrightarrow> m' \<subseteq>\<^sub>m m \<Longrightarrow> mem_knows C tr m'"
  unfolding mem_knows_def map_le_def by (metis domI)

lemma knows_other: "event_id ev \<noteq> S_ID s \<Longrightarrow> knows tr s \<Longrightarrow> knows (ev # tr) s"
  by (cases ev) (auto simp: knows_def)

context snapshots
begin

lemma keeps_knows: "sound \<Longrightarrow> c_Marshal C s = Inr raw \<Longrightarrow> knows tr s \<Longrightarrow>
    \<exists>t. c_Unmarshal C raw = Inr t \<and> S_ID t = S_ID s \<and> knows tr t"
  using keeps [of s raw] knows_alike [of _ s tr] by (auto simp: knows_def alike_def)

text \<open>A session is replaced by one that knows about one more event, its own.\<close>

lemma mem_knows_event:
  assumes "mem_knows C tr m" and "sound" and "c_Marshal C s = Inr raw" and "event_id ev = S_ID s"
    and "knows (ev # tr) s"
  shows "mem_knows C (ev # tr) (m(S_ID s \<mapsto> raw))"
  unfolding mem_knows_def
proof (intro allI impI)
  fix i r
  assume r: "(m(S_ID s \<mapsto> raw)) i = Some r"
  show "\<exists>t. c_Unmarshal C r = Inr t \<and> S_ID t = i \<and> knows (ev # tr) t"
  proof (cases "i = S_ID s")
    case True
    with r show ?thesis using keeps_knows [OF assms(2,3,5)] by simp
  next
    case False
    with r have "m i = Some r" by simp
    then obtain t where "c_Unmarshal C r = Inr t" "S_ID t = i" "knows tr t"
      using assms(1) unfolding mem_knows_def by blast
    then show ?thesis using False assms(4) knows_other [of ev t tr] by auto
  qed
qed

lemma mem_knows_update:
  assumes "mem_knows C tr m" and "sound" and "c_Marshal C s = Inr raw" and "knows tr s"
  shows "mem_knows C tr (m(S_ID s \<mapsto> raw))"
  using assms keeps_knows [OF assms(2,3,4)] by (auto simp: mem_knows_def)

lemma svc_save_inv:
  assumes "service_inv C sv" and "sound" and "event_id ev = S_ID s"
    and "sv_trace (svc_save C (Some s) ev sv) = ev # sv_trace sv \<Longrightarrow>
      history (ev # sv_trace sv) \<and> knows (ev # sv_trace sv) s"
  shows "service_inv C (svc_save C (Some s) ev sv)"
proof -
  obtain r m where sav: "mem_Save C (Some s) (sv_mem sv) = (r, m)"
    by (cases "mem_Save C (Some s) (sv_mem sv)") auto
  show ?thesis
  proof (cases r)
    case None
    with sav obtain raw where "c_Marshal C s = Inr raw" "m = (sv_mem sv)(S_ID s \<mapsto> raw)"
      by (auto dest: mem_Save_None)
    with sav None assms show ?thesis
      by (simp add: svc_save_def service_inv_def mem_knows_event del: fun_upd_apply)
  next
    case (Some er)
    with sav have "m = sv_mem sv" by (auto dest: mem_Save_Some)
    with sav Some assms(1) show ?thesis by (simp add: svc_save_def service_inv_def)
  qed
qed

lemma service_inv_le: "service_inv C sv \<Longrightarrow> m \<subseteq>\<^sub>m sv_mem sv \<Longrightarrow> service_inv C (sv\<lparr>sv_mem := m\<rparr>)"
  by (auto simp: service_inv_def intro: mem_knows_le)

lemma service_inv_world [simp]: "service_inv C (sv\<lparr>sv_world := w\<rparr>) = service_inv C sv"
  by (simp add: service_inv_def)

lemma create_inv:
  assumes "service_inv C sv" and "sound" and "distinct (created (sv_trace (svc_create D C e spec sv)))"
  shows "service_inv C (svc_create D C e spec sv)"
proof (cases "NewSession D e spec (sv_world sv)")
  case (Pair r w)
  show ?thesis
  proof (cases r)
    case (Inl er)
    with Pair assms(1) show ?thesis by (simp add: svc_create_def)
  next
    case (Inr si)
    obtain s iv where si: "si = (s, iv)" by (cases si) auto
    let ?sv = "sv\<lparr>sv_world := w\<rparr>" and ?ev = "Created (S_ID s)"
    have eq: "svc_create D C e spec sv = svc_save C (Some s) ?ev ?sv"
      using Pair Inr si by (simp add: svc_create_def)
    have fresh: "\<not> S_RequestObjectServed s \<and> \<not> S_Consumed s \<and> S_ResponseCode s = [] \<and> ascii (S_ID s)"
      using Pair Inr si b64_encode_ascii
      by (auto elim!: NewSession_Inr dest!: randToken_token simp: make_session_def)
    have h: "history (sv_trace sv)" using assms(1) by (simp add: service_inv_def)
    have "knows (?ev # sv_trace sv) s" if "sv_trace (svc_save C (Some s) ?ev ?sv) = ?ev # sv_trace ?sv"
    proof -
      have "?ev \<notin> set (sv_trace sv)" using assms(3) that by (simp add: eq flip: created_set)
      then have "Fetched (S_ID s) \<notin> set (sv_trace sv)" "\<not> happened (S_ID s) (sv_trace sv)"
          "\<not> redeemed (S_ID s) (sv_trace sv)"
        using history_created [OF h] by (fastforce simp: happened_iff redeemed_iff)+
      with fresh show ?thesis by (simp add: knows_def)
    qed
    with assms(1,2) h show ?thesis unfolding eq by (intro svc_save_inv) simp_all
  qed
qed

lemma fetch_inv:
  assumes "service_inv C sv" and "sound"
  shows "service_inv C (svc_fetch D C e now i sv)"
proof (cases "mem_Load C now i (sv_mem sv)")
  case (Pair r m)
  show ?thesis
  proof (cases r)
    case (Inl er)
    with Pair have "m \<subseteq>\<^sub>m sv_mem sv" by (simp add: mem_Load_Inl)
    with Pair Inl assms(1) show ?thesis by (simp add: svc_fetch_def service_inv_le)
  next
    case (Inr s)
    with Pair obtain raw where m: "m = sv_mem sv" "sv_mem sv i = Some raw" "c_Unmarshal C raw = Inr s"
      using mem_Load_Inr by blast
    then have id: "S_ID s = i" and kn: "knows (sv_trace sv) s"
      using assms(1) mem_knowsD unfolding service_inv_def by blast+
    obtain res so w where call: "RequestObjectJWT D e (Some s) (sv_world sv) = (res, so, w)"
      by (cases "RequestObjectJWT D e (Some s) (sv_world sv)") auto
    show ?thesis
    proof (cases res)
      case (Inl er)
      with Pair \<open>r = Inr s\<close> call m(1) assms(1) show ?thesis by (simp add: svc_fetch_def)
    next
      case (Inr tok)
      with call have s': "\<not> S_RequestObjectServed s" "so = Some (s\<lparr>S_RequestObjectServed := True\<rparr>)"
        by (auto elim: RequestObjectJWT_Inr)
      have "service_inv C (svc_save C (Some (s\<lparr>S_RequestObjectServed := True\<rparr>)) (Fetched i)
          (sv\<lparr>sv_mem := m, sv_world := w\<rparr>))"
        using assms kn id s'(1) m(1)
        by (intro svc_save_inv) (auto simp: service_inv_def knows_def)
      with Pair \<open>r = Inr s\<close> call Inr s'(2) show ?thesis by (simp add: svc_fetch_def)
    qed
  qed
qed

lemma redeem_inv:
  assumes "service_inv C sv" and "sound"
  shows "service_inv C (svc_redeem C now i code sv)"
proof (cases "mem_Load C now i (sv_mem sv)")
  case (Pair r m)
  show ?thesis
  proof (cases r)
    case (Inl er)
    with Pair have "m \<subseteq>\<^sub>m sv_mem sv" by (simp add: mem_Load_Inl)
    with Pair Inl assms(1) show ?thesis by (simp add: svc_redeem_def service_inv_le)
  next
    case (Inr s)
    with Pair obtain raw where m: "m = sv_mem sv" "sv_mem sv i = Some raw" "c_Unmarshal C raw = Inr s"
      using mem_Load_Inr by blast
    then have id: "S_ID s = i" and kn: "knows (sv_trace sv) s"
      using assms(1) mem_knowsD unfolding service_inv_def by blast+
    obtain res so where call: "ConsumeResponseCode (Some s) code = (res, so)"
      by (cases "ConsumeResponseCode (Some s) code") auto
    show ?thesis
    proof (cases res)
      case (Some er)
      with Pair Inr call m(1) assms(1) show ?thesis by (simp add: svc_redeem_def)
    next
      case None
      with call have s': "code = S_ResponseCode s" "code \<noteq> []" "\<not> S_ResponseCodeUsed s"
          "so = Some (s\<lparr>S_ResponseCodeUsed := True\<rparr>)"
        by (auto simp: ConsumeResponseCode_ok)
      have "service_inv C (svc_save C (Some (s\<lparr>S_ResponseCodeUsed := True\<rparr>)) (Redeemed i code)
          (sv\<lparr>sv_mem := m\<rparr>))"
        using assms kn id s'(1-3) m(1)
        by (intro svc_save_inv) (auto simp: service_inv_def knows_def)
      with Pair Inr call None s'(4) show ?thesis by (simp add: svc_redeem_def)
    qed
  qed
qed

text \<open>A processed session, with or without its new response code.\<close>

lemma respond_knows:
  assumes "knows tr s" and "\<not> happened (S_ID s) tr" and "ascii c"
  shows "knows (Processed (S_ID s) c # tr) (s\<lparr>S_Consumed := True\<rparr>)"
    and "knows (Processed (S_ID s) c # tr)
      (s\<lparr>S_Consumed := True, S_ResponseCode := c, S_ResponseCodeUsed := False\<rparr>)"
  using assms by (auto simp: knows_def happened_iff)

lemma respond_inv:
  assumes "service_inv C sv" and "sound"
  shows "service_inv C (svc_respond D C e now i body sv)"
proof (cases "mem_ConsumeOnce C now i (sv_mem sv)")
  case (Pair r m)
  show ?thesis
  proof (cases r)
    case (Inl er)
    with Pair have "m \<subseteq>\<^sub>m sv_mem sv" by (simp add: mem_ConsumeOnce_Inl)
    with Pair Inl assms(1) show ?thesis by (simp add: svc_respond_def service_inv_le)
  next
    case (Inr s')
    with Pair obtain raw s raw' where m: "sv_mem sv i = Some raw" "c_Unmarshal C raw = Inr s"
        "\<not> S_Consumed s" "s' = s\<lparr>S_Consumed := True\<rparr>" "c_Marshal C s' = Inr raw'"
        "m = (sv_mem sv)(i \<mapsto> raw')"
      using mem_ConsumeOnce_Inr by blast
    have id: "S_ID s = i" and kn: "knows (sv_trace sv) s"
      using assms(1) m(1,2) mem_knowsD unfolding service_inv_def by blast+
    have h: "history (sv_trace sv)" and mk: "mem_knows C (sv_trace sv) (sv_mem sv)"
      using assms(1) by (simp_all add: service_inv_def)
    have nh: "\<not> happened (S_ID s) (sv_trace sv)" using kn m(3) by (auto simp: knows_def)
    have kn': "knows (sv_trace sv) s'" using kn by (simp add: knows_def m(4))
    have mk': "mem_knows C (sv_trace sv) m"
      using mem_knows_update [OF mk assms(2) m(5) kn'] id by (simp add: m(4,6))
    obtain res so w where call: "ProcessResponse D e (Some s') body (sv_world sv) = (res, so, w)"
      by (cases "ProcessResponse D e (Some s') body (sv_world sv)") auto
    show ?thesis
    proof (cases res)
      case (Inl er)
      with Pair \<open>r = Inr s'\<close> call h mk' show ?thesis by (simp add: svc_respond_def service_inv_def)
    next
      case (Inr pc)
      obtain prs c where pc: "pc = (prs, c)" by (cases pc) auto
      let ?tr = "Processed i c # sv_trace sv"
      have hist: "history ?tr" using h kn nh id by (simp add: knows_def)
      have ok: "ProcessResponse D e (Some s') body (sv_world sv) = (Inr (prs, c), so, w)"
        using call Inr pc by simp
      then have "ascii c"
        by (rule ProcessResponse_Inr) (auto split: if_splits dest!: randToken_token intro: b64_encode_ascii)
      note rk = respond_knows [OF kn nh this]
      have k1: "knows ?tr s'" using rk(1) by (simp add: id m(4))
      have m2: "mem_knows C ?tr m"
        using mem_knows_event [OF mk assms(2) m(5) _ k1] id by (simp add: m(4,6))
      from ok have so: "so = Some s' \<or> so = Some (s'\<lparr>S_ResponseCode := c, S_ResponseCodeUsed := False\<rparr>)"
        by (rule ProcessResponse_Inr) (auto split: if_splits)
      obtain t where t: "so = Some t" "S_ID t = i" "knows ?tr t"
        using so k1 rk(2) id m(4) by auto
      obtain rr m' where sav: "mem_Save C so m = (rr, m')" by (cases "mem_Save C so m") auto
      have "mem_knows C ?tr m'"
      proof (cases rr)
        case None
        with sav t(1) obtain raw2 where "c_Marshal C t = Inr raw2" "m' = m(S_ID t \<mapsto> raw2)"
          by (auto dest: mem_Save_None)
        then show ?thesis using mem_knows_update [OF m2 assms(2) _ t(3)] by simp
      next
        case (Some er)
        with sav m2 show ?thesis by (auto dest: mem_Save_Some)
      qed
      with hist Pair \<open>r = Inr s'\<close> call Inr pc sav show ?thesis
        by (simp add: svc_respond_def service_inv_def)
    qed
  qed
qed

lemma step_inv: "step D C e sv sv' \<Longrightarrow> sound \<Longrightarrow> distinct (created (sv_trace sv')) \<Longrightarrow>
    service_inv C sv \<Longrightarrow> service_inv C sv'"
  by (induction rule: step.induct) (auto intro: create_inv fetch_inv respond_inv redeem_inv)

lemma start_inv: "service_inv C (start w)"
  by (simp add: service_inv_def start_def mem_knows_def NewMemStore_def)

lemma reachable_inv: "reachable D C e sv \<Longrightarrow> sound \<Longrightarrow> distinct (created (sv_trace sv)) \<Longrightarrow> service_inv C sv"
proof (induction rule: reachable.induct)
  case (more sv sv')
  then obtain evs where "sv_trace sv' = evs @ sv_trace sv" using step_trace by blast
  with more have "service_inv C sv" by (simp add: created_append)
  with more show ?case using step_inv by blast
qed (rule start_inv)

end

section \<open>Handlers that succeed\<close>

lemma create_ok:
  assumes "NewSession D e spec (sv_world sv) = (Inr (s, iv), w)" and "json_fit L s"
  obtains sv' where "svc_create D (json_codec L) e spec sv = sv'" "stores L (sv_mem sv') s"
    "sv_trace sv' = Created (S_ID s) # sv_trace sv"
proof -
  obtain m where "mem_Save (json_codec L) (Some s) (sv_mem sv) = (None, m)" "stores L m s"
    using assms(2) by (rule fit_save)
  with assms(1) that show ?thesis by (simp add: svc_create_def svc_save_def)
qed

lemma fetch_ok:
  assumes "stores L (sv_mem sv) s" and "json_fit L s" and "requestable D e s" and "S_Flow s \<noteq> DCAPI"
    and "\<not> S_RequestObjectServed s" and "\<forall>n. e_clock e n < S_ExpiresAt s"
  obtains sv' where "svc_fetch D (json_codec L) e (e_clock e 0) (S_ID s) sv = sv'"
    "stores L (sv_mem sv') (s\<lparr>S_RequestObjectServed := True\<rparr>)"
    "sv_trace sv' = Fetched (S_ID s) # sv_trace sv"
proof -
  let ?s = "s\<lparr>S_RequestObjectServed := True\<rparr>"
  obtain tok w where "RequestObjectJWT D e (Some s) (sv_world sv) = (Inr tok, Some ?s, w)"
    using RequestObjectJWT_ok [OF assms(3), of "sv_world sv"] assms(4-6) by (auto simp: live_at_def)
  moreover obtain m where "mem_Save (json_codec L) (Some ?s) (sv_mem sv) = (None, m)" "stores L m ?s"
    using json_fit_flags(1) [OF assms(2)] by (rule fit_save)
  ultimately show ?thesis
    using that fit_load [OF assms(1)] assms(6) by (simp add: svc_fetch_def svc_save_def)
qed

lemma respond_ok:
  assumes "stores L (sv_mem sv) s" and "json_fit L s" and "\<not> S_Consumed s" and "S_Flow s = SameDevice"
    and "\<forall>n. e_clock e n < S_ExpiresAt s" and "\<forall>p. e_rand e p \<noteq> None"
    and "\<forall>n. acceptable D e (s\<lparr>S_Consumed := True\<rparr>) (e_clock e n) body payload thumb"
  obtains sv' c where "svc_respond D (json_codec L) e (e_clock e 0) (S_ID s) body sv = sv'"
    "json_fit L (s\<lparr>S_Consumed := True, S_ResponseCode := c, S_ResponseCodeUsed := False\<rparr>)"
    "stores L (sv_mem sv') (s\<lparr>S_Consumed := True, S_ResponseCode := c, S_ResponseCodeUsed := False\<rparr>)"
    "sv_trace sv' = Processed (S_ID s) c # sv_trace sv" "c \<noteq> []"
proof -
  let ?s = "s\<lparr>S_Consumed := True\<rparr>"
  obtain m where m: "mem_ConsumeOnce (json_codec L) (e_clock e 0) (S_ID s) (sv_mem sv) = (Inr ?s, m)"
    using fit_consume [OF assms(1,2) _ assms(3)] assms(5) by blast
  obtain c w where tok: "randToken (e_rand e) tokenBytes (tick_once (sv_world sv)) = (Inr c, w)"
    using randToken_total [OF assms(6)] by blast
  let ?t = "?s\<lparr>S_ResponseCode := c, S_ResponseCodeUsed := False\<rparr>"
  obtain prs where call: "ProcessResponse D e (Some ?s) body (sv_world sv) = (Inr (prs, c), Some ?t, w)"
    using ProcessResponse_acceptable [of D e ?s "sv_world sv" body payload thumb] assms(4,7) tok
    by (simp add: Let_def)
  have "is_utf8 c" "c \<noteq> []" using tok by (auto dest!: randToken_token simp: utf8_token tokenBytes_def)
  then have fit: "json_fit L ?t" using json_fit_flags(2,5) assms(2) by blast
  then obtain m' where "mem_Save (json_codec L) (Some ?t) m = (None, m')" "stores L m' ?t"
    by (rule fit_save)
  with m call fit \<open>c \<noteq> []\<close> that show ?thesis by (simp add: svc_respond_def)
qed

lemma redeem_ok:
  assumes "stores L (sv_mem sv) s" and "json_fit L s" and "now < S_ExpiresAt s"
    and "S_ResponseCode s \<noteq> []" and "\<not> S_ResponseCodeUsed s"
  obtains sv' where "svc_redeem (json_codec L) now (S_ID s) (S_ResponseCode s) sv = sv'"
    "sv_trace sv' = Redeemed (S_ID s) (S_ResponseCode s) # sv_trace sv"
proof -
  let ?s = "s\<lparr>S_ResponseCodeUsed := True\<rparr>"
  have "ConsumeResponseCode (Some s) (S_ResponseCode s) = (None, Some ?s)"
    using assms(4,5) by (simp add: ConsumeResponseCode_ok)
  moreover obtain m where "mem_Save (json_codec L) (Some ?s) (sv_mem sv) = (None, m)" "stores L m ?s"
    using json_fit_flags(3) [OF assms(2)] by (rule fit_save)
  ultimately show ?thesis using that fit_load [OF assms(1,3)] by (simp add: svc_redeem_def svc_save_def)
qed

text \<open>The four handlers in turn.\<close>

lemma service_completes:
  assumes "NewSession D e spec w = (Inr (s, iv), w')" and "json_fit L s" and "requestable D e s"
    and "S_Flow s = SameDevice" and "\<forall>n. e_clock e n < S_ExpiresAt s" and "\<forall>p. e_rand e p \<noteq> None"
    and "\<forall>n. acceptable D e (s\<lparr>S_RequestObjectServed := True, S_Consumed := True\<rparr>) (e_clock e n) body payload thumb"
  shows "\<exists>sv c. reachable D (json_codec L) e sv
    \<and> sv_trace sv = [Redeemed (S_ID s) c, Processed (S_ID s) c, Fetched (S_ID s), Created (S_ID s)]"
proof -
  let ?C = "json_codec L" and ?served = "s\<lparr>S_RequestObjectServed := True\<rparr>"
  have new: "\<not> S_RequestObjectServed s" "\<not> S_Consumed s"
    using assms(1) by (auto elim!: NewSession_Inr simp: make_session_def)
  have flow: "S_Flow s \<noteq> DCAPI" using assms(4) by (simp add: flow_defs)
  obtain sv1 where 1: "svc_create D ?C e spec (start w) = sv1" "stores L (sv_mem sv1) s"
      "sv_trace sv1 = [Created (S_ID s)]"
    using create_ok [of D e spec "start w", OF _ assms(2)] assms(1) by (auto simp: start_def)
  obtain sv2 where 2: "svc_fetch D ?C e (e_clock e 0) (S_ID s) sv1 = sv2" "stores L (sv_mem sv2) ?served"
      "sv_trace sv2 = Fetched (S_ID s) # sv_trace sv1"
    using 1(2) assms(2,3) flow new(1) assms(5) by (rule fetch_ok)
  obtain sv3 c where 3: "svc_respond D ?C e (e_clock e 0) (S_ID s) body sv2 = sv3"
      "json_fit L (?served\<lparr>S_Consumed := True, S_ResponseCode := c, S_ResponseCodeUsed := False\<rparr>)"
      "stores L (sv_mem sv3) (?served\<lparr>S_Consumed := True, S_ResponseCode := c, S_ResponseCodeUsed := False\<rparr>)"
      "sv_trace sv3 = Processed (S_ID s) c # sv_trace sv2" "c \<noteq> []"
    using respond_ok [OF 2(2), of e D body payload thumb] json_fit_flags(1) [OF assms(2)] new(2) assms(4-7)
    by auto
  obtain sv4 where 4: "svc_redeem ?C (e_clock e 0) (S_ID s) c sv3 = sv4"
      "sv_trace sv4 = Redeemed (S_ID s) c # sv_trace sv3"
    using redeem_ok [OF 3(3,2), of "e_clock e 0"] 3(5) assms(5) by auto
  have "reachable D ?C e sv1" using 1(1) reachable.more [OF reachable.init step.create] by metis
  then have "reachable D ?C e sv2" using 2(1) reachable.more step.fetch by metis
  then have "reachable D ?C e sv3" using 3(1) reachable.more step.respond by metis
  then have "reachable D ?C e sv4" using 4(1) reachable.more step.redeem by metis
  with 1(3) 2(3) 3(4) 4(2) show ?thesis by auto
qed

section \<open>A sample run\<close>

text \<open>The session that the sample environment creates first, and a wallet's answer to it.\<close>

definition sample_created :: "(credential list, string) session" where
  "sample_created = make_session sample_engine sample_spec ''AAECAwQFBgcICQoLDA0ODw''
     ''EBESExQVFhcYGRobHB0eHw'' ''ICEiIyQlJicoKSorLC0uLw'' ''key-0001'' 0"

definition sample_answer :: bytes where
  \<open>sample_answer = values_encode
     [(''response'', ''key-0001{"state":"ICEiIyQlJicoKSorLC0uLw","vp_token":{"pid":["ey.a~"]}}'')]\<close>

abbreviation sample_answered :: "(credential list, string) session" where
  "sample_answered \<equiv> sample_created\<lparr>S_RequestObjectServed := True, S_Consumed := True\<rparr>"

lemma sample_creates:
  obtains iv w where "NewSession sample_deps sample_engine sample_spec sample_world = (Inr (sample_created, iv), w)"
proof -
  have "(case NewSession sample_deps sample_engine sample_spec sample_world of
      (Inr (s, iv), w) \<Rightarrow> s = sample_created | _ \<Rightarrow> False)"
    by code_simp
  with that show ?thesis by (auto split: prod.splits sum.splits)
qed

lemma sample_answer_accepted:
  obtains payload thumb where
    "acceptable sample_deps sample_engine sample_answered 0 sample_answer payload thumb"
proof -
  have "(case ProcessResponse sample_deps sample_engine (Some sample_answered) sample_answer sample_world of
      (Inr (prs, c), so, w) \<Rightarrow> True | _ \<Rightarrow> False)"
    by code_simp
  then obtain prs c so w where
      "ProcessResponse sample_deps sample_engine (Some sample_answered) sample_answer sample_world
        = (Inr (prs, c), so, w)"
    by (auto split: prod.splits sum.splits)
  then obtain payload thumb where "acceptable sample_deps sample_engine sample_answered
      (e_clock sample_engine (w_ticks sample_world)) sample_answer payload thumb"
    by (rule ProcessResponse_Inr) blast
  with that show ?thesis by (simp add: sample_defs)
qed

lemma sample_created_fit: "json_fit sample_json sample_created"
proof -
  obtain iv w where "NewSession sample_deps sample_engine sample_spec sample_world = (Inr (sample_created, iv), w)"
    by (rule sample_creates)
  then have "\<exists>raw. session_marshal sample_json sample_created = Inr raw" by (rule sample_writable)
  moreover have "utf8_session sample_created" by code_simp
  moreover have "parts_come_back sample_json sample_created"
    using sample_session_parts
    by (simp add: parts_come_back_def sample_created_def make_session_def sample_spec_def sample_session_def)
  ultimately show ?thesis by (simp add: json_fit_def sample_created_def make_session_def)
qed

lemma sample_run:
  obtains i c sv where "reachable sample_deps (json_codec sample_json) sample_engine sv"
    "sv_trace sv = [Redeemed i c, Processed i c, Fetched i, Created i]"
proof -
  obtain iv w where "NewSession sample_deps sample_engine sample_spec sample_world = (Inr (sample_created, iv), w)"
    by (rule sample_creates)
  moreover obtain payload thumb where
      "acceptable sample_deps sample_engine sample_answered 0 sample_answer payload thumb"
    by (rule sample_answer_accepted)
  moreover have "requestable sample_deps sample_engine sample_created"
    by (simp add: requestable_def sample_created_def make_session_def sample_spec_def ephemeralPrivateKey_def sample_defs)
  moreover have "S_Flow sample_created = SameDevice" "S_ExpiresAt sample_created = 300000000000"
      "e_clock sample_engine n = 0" "e_rand sample_engine n \<noteq> None" for n
    by (simp_all add: sample_created_def make_session_def sample_spec_def flow_defs sample_defs DefaultSessionTTL_def)
  ultimately show ?thesis
    using service_completes [of sample_deps sample_engine sample_spec sample_world sample_created] sample_created_fit
      that by (metis zero_less_numeral)
qed

section \<open>Properties\<close>

text \<open>
  C4: What a service hands out is a legal history. Handlers run one at a time, each as a whole, in any
  order, on any input and at any times (C16 and C19 are about interleaved ones). Assume that no session
  id is drawn twice. Then in every state that is reached, each session's request object has been served at
  most once and its presentations handed out at most once, in each case after the session's creation; and
  a response code has been redeemed at most once, after it was handed out with the presentations of that
  session.
\<close>

theorem service_history_legal:
  assumes "json_readable L" and "reachable D (json_codec L) e sv" and "distinct (created (sv_trace sv))"
  shows "history (sv_trace sv)"
  using json.reachable_inv [OF assms(2,1,3)] by (simp add: service_inv_def)

theorem service_history_legal_witness:
  "\<exists>i c sv. reachable sample_deps (json_codec sample_json) sample_engine sv
     \<and> sv_trace sv = [Redeemed i c, Processed i c, Fetched i, Created i] \<and> history (sv_trace sv)"
proof -
  obtain i c sv where run: "reachable sample_deps (json_codec sample_json) sample_engine sv"
      "sv_trace sv = [Redeemed i c, Processed i c, Fetched i, Created i]"
    by (rule sample_run)
  then have "distinct (created (sv_trace sv))" by simp
  with service_history_legal [OF sample_json_readable run(1)] run show ?thesis by blast
qed

text \<open>
  The store agrees with the history, under the same assumptions. In every state that is reached a stored
  session whose request object
  was handed out is marked served, one whose presentations were handed out is marked consumed, one that
  holds a response code holds the code that was handed out with the presentations, and one whose code
  was redeemed is marked so.
\<close>

theorem service_store_agrees:
  assumes "json_readable L" and "reachable D (json_codec L) e sv" and "distinct (created (sv_trace sv))"
    and "sv_mem sv i = Some raw"
  shows "\<exists>s. session_unmarshal L raw = Inr s \<and> S_ID s = i \<and> Created i \<in> set (sv_trace sv)
    \<and> (Fetched i \<in> set (sv_trace sv) \<longrightarrow> S_RequestObjectServed s)
    \<and> (\<forall>c. Processed i c \<in> set (sv_trace sv) \<longrightarrow> S_Consumed s)
    \<and> (S_ResponseCode s \<noteq> [] \<longrightarrow> Processed i (S_ResponseCode s) \<in> set (sv_trace sv))
    \<and> (\<forall>c. Redeemed i c \<in> set (sv_trace sv) \<longrightarrow> S_ResponseCodeUsed s)"
proof -
  obtain s where "session_unmarshal L raw = Inr s" "S_ID s = i" "knows (sv_trace sv) s"
    using json.reachable_inv [OF assms(2,1,3)] assms(4)
    by (auto simp: service_inv_def mem_knows_def json_codec_def)
  then show ?thesis by (auto simp: knows_def happened_iff redeemed_iff)
qed

theorem service_store_agrees_witness:
  "\<exists>i sv raw. reachable sample_deps (json_codec sample_json) sample_engine sv \<and> sv_mem sv i = Some raw
     \<and> (\<exists>s. session_unmarshal sample_json raw = Inr s \<and> S_ID s = i \<and> Created i \<in> set (sv_trace sv))"
proof -
  obtain iv w where "NewSession sample_deps sample_engine sample_spec (sv_world (start sample_world))
      = (Inr (sample_created, iv), w)"
    using sample_creates by (auto simp: start_def)
  then obtain sv where sv: "svc_create sample_deps (json_codec sample_json) sample_engine sample_spec
        (start sample_world) = sv"
      "stores sample_json (sv_mem sv) sample_created" "sv_trace sv = [Created (S_ID sample_created)]"
    using sample_created_fit by (rule create_ok) (simp add: start_def)
  then obtain raw where "sv_mem sv (S_ID sample_created) = Some raw" by (auto simp: stores_def)
  moreover have "reachable sample_deps (json_codec sample_json) sample_engine sv"
    using sv(1) reachable.more [OF reachable.init step.create] by metis
  moreover have "distinct (created (sv_trace sv))" by (simp add: sv(3))
  ultimately show ?thesis
    using service_store_agrees [OF sample_json_readable, of sample_deps sample_engine sv] by blast
qed

end
