(* ===== verification/Concurrency.thy ===== *)
theory Concurrency
  imports Protocol
begin

text \<open>
  The handlers of \<^theory_text>\<open>Protocol\<close>, interleaved. Only the store's operations are atomic (\<open>SessionStore\<close> in
  \<open>session.go\<close>): a handler that has loaded or consumed a session works on its own copy until it saves
  it, and other handlers run meanwhile. A task is a handler at that point. In the \<open>serial\<close> discipline a
  response is not consumed while a loaded copy of its session is out; without it nothing is ordered.
\<close>

section \<open>Tasks\<close>

datatype ('q, 'r) task =
    Serving string "('q, 'r) session"
  | Answering string "('q, 'r) session" bytes
  | Redeeming string "('q, 'r) session" string

fun task_id :: "('q, 'r) task \<Rightarrow> string" where
  "task_id (Serving i s) = i"
| "task_id (Answering i s body) = i"
| "task_id (Redeeming i s code) = i"

fun task_session :: "('q, 'r) task \<Rightarrow> ('q, 'r) session" where
  "task_session (Serving i s) = s"
| "task_session (Answering i s body) = s"
| "task_session (Redeeming i s code) = s"

fun answers :: "string \<Rightarrow> ('q, 'r) task \<Rightarrow> bool" where
  "answers j (Answering i s body) = (i = j)"
| "answers j t = False"

record ('q, 'r) site =
  st_service :: service
  st_tasks :: "('q, 'r) task list"

text \<open>The first half of a handler, up to the store's answer.\<close>

definition begin_load ::
    "('q, 'r) codec \<Rightarrow> (('q, 'r) session \<Rightarrow> ('q, 'r) task) \<Rightarrow> go_time \<Rightarrow> string
     \<Rightarrow> ('q, 'r) site \<Rightarrow> ('q, 'r) site" where
  "begin_load C mk now i st =
     (case mem_Load C now i (sv_mem (st_service st)) of
        (Inl er, m) \<Rightarrow> st\<lparr>st_service := (st_service st)\<lparr>sv_mem := m\<rparr>\<rparr>
      | (Inr s, m) \<Rightarrow>
          st\<lparr>st_service := (st_service st)\<lparr>sv_mem := m\<rparr>, st_tasks := mk s # st_tasks st\<rparr>)"

definition begin_respond ::
    "('q, 'r) codec \<Rightarrow> go_time \<Rightarrow> string \<Rightarrow> bytes \<Rightarrow> ('q, 'r) site \<Rightarrow> ('q, 'r) site" where
  "begin_respond C now i body st =
     (case mem_ConsumeOnce C now i (sv_mem (st_service st)) of
        (Inl er, m) \<Rightarrow> st\<lparr>st_service := (st_service st)\<lparr>sv_mem := m\<rparr>\<rparr>
      | (Inr s, m) \<Rightarrow>
          st\<lparr>st_service := (st_service st)\<lparr>sv_mem := m\<rparr>,
             st_tasks := Answering i s body # st_tasks st\<rparr>)"

text \<open>The second half: the call into the engine and the save.\<close>

fun finish :: "('q, 'r) deps \<Rightarrow> ('q, 'r) codec \<Rightarrow> engine \<Rightarrow> ('q, 'r) task \<Rightarrow> service \<Rightarrow> service" where
  "finish D C e (Serving i s) sv =
     (case RequestObjectJWT D e (Some s) (sv_world sv) of
        (Inl er, so, w) \<Rightarrow> sv\<lparr>sv_world := w\<rparr>
      | (Inr tok, so, w) \<Rightarrow> svc_save C so (Fetched i) (sv\<lparr>sv_world := w\<rparr>))"
| "finish D C e (Answering i s body) sv =
     (case ProcessResponse D e (Some s) body (sv_world sv) of
        (Inl er, so, w) \<Rightarrow> sv\<lparr>sv_world := w\<rparr>
      | (Inr (prs, c), so, w) \<Rightarrow>
          (case mem_Save C so (sv_mem sv) of
             (r, m) \<Rightarrow> sv\<lparr>sv_mem := m, sv_world := w, sv_trace := Processed i c # sv_trace sv\<rparr>))"
| "finish D C e (Redeeming i s code) sv =
     (case ConsumeResponseCode (Some s) code of
        (Some er, so) \<Rightarrow> sv
      | (None, so) \<Rightarrow> svc_save C so (Redeemed i code) sv)"

text \<open>The id that creation draws has not been drawn before.\<close>

definition new_id :: "('q, 'r) deps \<Rightarrow> engine \<Rightarrow> ('q, 'r) request_spec \<Rightarrow> service \<Rightarrow> bool" where
  "new_id D e spec sv =
     (case NewSession D e spec (sv_world sv) of
        (Inl er, w) \<Rightarrow> True
      | (Inr (s, iv), w) \<Rightarrow> Created (S_ID s) \<notin> set (sv_trace sv))"

inductive istep ::
    "bool \<Rightarrow> ('q, 'r) deps \<Rightarrow> ('q, 'r) codec \<Rightarrow> engine \<Rightarrow> ('q, 'r) site \<Rightarrow> ('q, 'r) site \<Rightarrow> bool"
  for serial D C e where
  i_create: "new_id D e spec (st_service st) \<Longrightarrow>
    istep serial D C e st (st\<lparr>st_service := svc_create D C e spec (st_service st)\<rparr>)"
| i_fetch: "istep serial D C e st (begin_load C (Serving i) now i st)"
| i_redeem: "istep serial D C e st (begin_load C (\<lambda>s. Redeeming i s code) now i st)"
| i_respond: "serial \<longrightarrow> (\<forall>t \<in> set (st_tasks st). task_id t = i \<longrightarrow> answers i t) \<Longrightarrow>
    istep serial D C e st (begin_respond C now i body st)"
| i_finish: "st_tasks st = xs @ t # ys \<Longrightarrow>
    istep serial D C e st
      (st\<lparr>st_service := finish D C e t (st_service st), st_tasks := xs @ ys\<rparr>)"

definition idle :: "service \<Rightarrow> ('q, 'r) site" where
  "idle sv = \<lparr>st_service = sv, st_tasks = []\<rparr>"

abbreviation isteps ::
    "bool \<Rightarrow> ('q, 'r) deps \<Rightarrow> ('q, 'r) codec \<Rightarrow> engine \<Rightarrow> ('q, 'r) site \<Rightarrow> ('q, 'r) site \<Rightarrow> bool" where
  "isteps serial D C e \<equiv> (istep serial D C e)\<^sup>*\<^sup>*"

section \<open>Whole handlers are interleavings\<close>

lemma begin_then_finish:
  assumes "istep serial D C e (idle sv) st" and "st = \<lparr>st_service = sv', st_tasks = [t]\<rparr>"
  shows "isteps serial D C e (idle sv) (idle (finish D C e t sv'))"
proof -
  have "istep serial D C e st (st\<lparr>st_service := finish D C e t (st_service st), st_tasks := [] @ []\<rparr>)"
    by (rule i_finish) (simp add: assms(2))
  then have "istep serial D C e st (idle (finish D C e t sv'))" by (simp add: assms(2) idle_def)
  with assms(1) show ?thesis by (meson converse_rtranclp_into_rtranclp r_into_rtranclp)
qed

lemma step_isteps: "step D C e sv sv' \<Longrightarrow> (\<And>spec. new_id D e spec sv) \<Longrightarrow>
    isteps serial D C e (idle sv) (idle sv')"
proof (induction rule: step.induct)
  case (create sv spec)
  then show ?case
    using i_create [of D e spec "idle sv"] by (auto simp: idle_def)
next
  case (fetch sv now i)
  have b: "istep serial D C e (idle sv) (begin_load C (Serving i) now i (idle sv))" by (rule i_fetch)
  show ?case
  proof (cases "mem_Load C now i (sv_mem sv)")
    case (Pair r m)
    show ?thesis
    proof (cases r)
      case (Inl er)
      with b Pair show ?thesis by (simp add: begin_load_def idle_def svc_fetch_def r_into_rtranclp)
    next
      case (Inr s)
      have "svc_fetch D C e now i sv = finish D C e (Serving i s) (sv\<lparr>sv_mem := m\<rparr>)"
        by (auto simp: svc_fetch_def Pair Inr split: prod.split sum.split)
      with begin_then_finish [OF b] show ?thesis by (simp add: begin_load_def idle_def Pair Inr)
    qed
  qed
next
  case (respond sv now i body)
  have b: "istep serial D C e (idle sv) (begin_respond C now i body (idle sv))"
    by (rule i_respond) (simp add: idle_def)
  show ?case
  proof (cases "mem_ConsumeOnce C now i (sv_mem sv)")
    case (Pair r m)
    show ?thesis
    proof (cases r)
      case (Inl er)
      with b Pair show ?thesis by (simp add: begin_respond_def idle_def svc_respond_def r_into_rtranclp)
    next
      case (Inr s)
      have "svc_respond D C e now i body sv = finish D C e (Answering i s body) (sv\<lparr>sv_mem := m\<rparr>)"
        by (auto simp: svc_respond_def Pair Inr split: prod.split sum.split)
      with begin_then_finish [OF b] show ?thesis by (simp add: begin_respond_def idle_def Pair Inr)
    qed
  qed
next
  case (redeem sv now i code)
  have b: "istep serial D C e (idle sv) (begin_load C (\<lambda>s. Redeeming i s code) now i (idle sv))"
    by (rule i_redeem)
  show ?case
  proof (cases "mem_Load C now i (sv_mem sv)")
    case (Pair r m)
    show ?thesis
    proof (cases r)
      case (Inl er)
      with b Pair show ?thesis by (simp add: begin_load_def idle_def svc_redeem_def r_into_rtranclp)
    next
      case (Inr s)
      have "svc_redeem C now i code sv = finish D C e (Redeeming i s code) (sv\<lparr>sv_mem := m\<rparr>)"
        by (auto simp: svc_redeem_def Pair Inr split: prod.split option.split)
      with begin_then_finish [OF b] show ?thesis by (simp add: begin_load_def idle_def Pair Inr)
    qed
  qed
qed

section \<open>The invariant of the serial discipline\<close>

definition processed :: "string \<Rightarrow> event list \<Rightarrow> nat" where
  "processed i tr = length (filter (\<lambda>ev. \<exists>c. ev = Processed i c) tr)"

definition answering :: "string \<Rightarrow> ('q, 'r) task list \<Rightarrow> nat" where
  "answering i ts = length (filter (answers i) ts)"

lemma processed_simps [simp]:
  "processed i [] = 0" "processed i (Created j # tr) = processed i tr"
  "processed i (Fetched j # tr) = processed i tr" "processed i (Redeemed j c # tr) = processed i tr"
  "processed i (Processed j c # tr) = (if i = j then 1 else 0) + processed i tr"
  by (auto simp: processed_def)

lemma answering_simps [simp]:
  "answering i [] = 0" "answering i (t # ts) = (if answers i t then 1 else 0) + answering i ts"
  "answering i (xs @ ys) = answering i xs + answering i ys"
  by (simp_all add: answering_def)

lemma answers_id: "answers i t \<Longrightarrow> task_id t = i"
  by (cases t) auto

lemma answering_pos: "0 < answering i ts \<longleftrightarrow> (\<exists>t \<in> set ts. answers i t)"
  by (induction ts) auto

text \<open>
  A copy of session \<open>i\<close>: it has the id and tokens, the session was created, and if its response is being
  processed or was processed (\<open>n\<close> is how often), the copy is marked.
\<close>

definition copy_ok :: "event list \<Rightarrow> (string \<Rightarrow> nat) \<Rightarrow> string \<Rightarrow> ('q, 'r) session \<Rightarrow> bool" where
  "copy_ok tr n i s \<longleftrightarrow> S_ID s = i \<and> ascii (S_ID s) \<and> ascii (S_ResponseCode s) \<and> Created i \<in> set tr
     \<and> (0 < n i \<longrightarrow> S_Consumed s)"

definition mem_copies :: "('q, 'r) codec \<Rightarrow> event list \<Rightarrow> (string \<Rightarrow> nat) \<Rightarrow> mem \<Rightarrow> bool" where
  "mem_copies C tr n m \<longleftrightarrow> (\<forall>i raw. m i = Some raw \<longrightarrow> (\<exists>s. c_Unmarshal C raw = Inr s \<and> copy_ok tr n i s))"

definition task_ok :: "event list \<Rightarrow> (string \<Rightarrow> nat) \<Rightarrow> ('q, 'r) task \<Rightarrow> bool" where
  "task_ok tr n t \<longleftrightarrow> copy_ok tr n (task_id t) (task_session t)
     \<and> (answers (task_id t) t \<longrightarrow> S_Consumed (task_session t))"

definition spent :: "('q, 'r) site \<Rightarrow> string \<Rightarrow> nat" where
  "spent st i = processed i (sv_trace (st_service st)) + answering i (st_tasks st)"

definition site_inv :: "('q, 'r) codec \<Rightarrow> ('q, 'r) site \<Rightarrow> bool" where
  "site_inv C st \<longleftrightarrow> (\<forall>i. spent st i \<le> 1)
     \<and> mem_copies C (sv_trace (st_service st)) (spent st) (sv_mem (st_service st))
     \<and> (\<forall>t \<in> set (st_tasks st). task_ok (sv_trace (st_service st)) (spent st) t)
     \<and> (\<forall>i c. Processed i c \<in> set (sv_trace (st_service st)) \<longrightarrow> Created i \<in> set (sv_trace (st_service st)))"

lemma site_invI: "(\<And>i. spent st i \<le> 1) \<Longrightarrow>
    mem_copies C (sv_trace (st_service st)) (spent st) (sv_mem (st_service st)) \<Longrightarrow>
    (\<And>t. t \<in> set (st_tasks st) \<Longrightarrow> task_ok (sv_trace (st_service st)) (spent st) t) \<Longrightarrow>
    (\<And>i c. Processed i c \<in> set (sv_trace (st_service st)) \<Longrightarrow> Created i \<in> set (sv_trace (st_service st))) \<Longrightarrow>
    site_inv C st"
  by (simp add: site_inv_def)

lemma copy_ok_mono: "copy_ok tr n i s \<Longrightarrow> set tr \<subseteq> set tr' \<Longrightarrow> (0 < n' i \<longrightarrow> 0 < n i) \<Longrightarrow> copy_ok tr' n' i s"
  by (auto simp: copy_ok_def)

lemma mem_copies_mono: "mem_copies C tr n m \<Longrightarrow> m' \<subseteq>\<^sub>m m \<Longrightarrow> set tr \<subseteq> set tr' \<Longrightarrow>
    (\<And>i. 0 < n' i \<Longrightarrow> 0 < n i) \<Longrightarrow> mem_copies C tr' n' m'"
  unfolding mem_copies_def map_le_def by (metis copy_ok_mono domI)

lemma task_ok_mono: "task_ok tr n t \<Longrightarrow> set tr \<subseteq> set tr' \<Longrightarrow> (\<And>i. 0 < n' i \<Longrightarrow> 0 < n i) \<Longrightarrow> task_ok tr' n' t"
  by (auto simp: task_ok_def intro: copy_ok_mono)

lemma mem_copiesD: "mem_copies C tr n m \<Longrightarrow> m i = Some raw \<Longrightarrow> c_Unmarshal C raw = Inr s \<Longrightarrow> copy_ok tr n i s"
  by (fastforce simp: mem_copies_def)

lemma copy_ok_alike: "alike t s \<Longrightarrow> copy_ok tr n i t = copy_ok tr n i s"
  by (simp add: copy_ok_def alike_def)

text \<open>What the engine does with a copy.\<close>

lemma engine_copy:
  "RequestObjectJWT D e (Some s) w = (Inr tok, so, w') \<Longrightarrow> copy_ok tr n i s \<Longrightarrow>
     \<exists>t. so = Some t \<and> copy_ok tr n i t"
  "ConsumeResponseCode (Some s) code = (None, so) \<Longrightarrow> copy_ok tr n i s \<Longrightarrow>
     \<exists>t. so = Some t \<and> copy_ok tr n i t"
  "ProcessResponse D e (Some s) body w = (Inr (prs, c), so, w') \<Longrightarrow> copy_ok tr n i s \<Longrightarrow>
     \<exists>t. so = Some t \<and> copy_ok tr n i t \<and> S_Consumed t = S_Consumed s"
proof -
  show "\<exists>t. so = Some t \<and> copy_ok tr n i t"
    if "RequestObjectJWT D e (Some s) w = (Inr tok, so, w')" "copy_ok tr n i s"
    using that by (auto elim!: RequestObjectJWT_Inr simp: copy_ok_def)
  show "\<exists>t. so = Some t \<and> copy_ok tr n i t"
    if "ConsumeResponseCode (Some s) code = (None, so)" "copy_ok tr n i s"
    using that by (auto simp: ConsumeResponseCode_ok copy_ok_def)
  assume p: "ProcessResponse D e (Some s) body w = (Inr (prs, c), so, w')" and c: "copy_ok tr n i s"
  have "so = Some s \<or> (\<exists>bs. so = Some (s\<lparr>S_ResponseCode := b64_encode bs, S_ResponseCodeUsed := False\<rparr>))"
    using p by (rule ProcessResponse_Inr) (auto split: if_splits dest!: randToken_token)
  with c show "\<exists>t. so = Some t \<and> copy_ok tr n i t \<and> S_Consumed t = S_Consumed s"
    using b64_encode_ascii by (auto simp: copy_ok_def)
qed

context snapshots
begin

lemma save_copies:
  assumes "mem_copies C tr n m" and sound and "copy_ok tr n i s" and "mem_Save C (Some s) m = (r, m')"
  shows "mem_copies C tr n m'"
proof (cases r)
  case None
  then obtain raw where raw: "c_Marshal C s = Inr raw" "m' = m(S_ID s \<mapsto> raw)"
    using assms(4) by (auto dest: mem_Save_None)
  moreover from raw obtain t where "c_Unmarshal C raw = Inr t" "alike t s"
    using keeps [OF assms(2) raw(1)] assms(3) by (auto simp: copy_ok_def)
  moreover have "copy_ok tr n i t" using assms(3) copy_ok_alike [OF \<open>alike t s\<close>] by simp
  moreover have "S_ID s = i" using assms(3) by (simp add: copy_ok_def)
  ultimately show ?thesis using assms(1) by (auto simp: mem_copies_def)
next
  case (Some er)
  with assms show ?thesis by (auto dest: mem_Save_Some)
qed

text \<open>Storing the result of a task under an event that is not a processing.\<close>

lemma svc_save_copies:
  assumes "mem_copies C (sv_trace sv) n (sv_mem sv)" and sound and "copy_ok (sv_trace sv) n i s"
  shows "mem_copies C (sv_trace (svc_save C (Some s) ev sv)) n (sv_mem (svc_save C (Some s) ev sv))"
proof -
  obtain r m where sav: "mem_Save C (Some s) (sv_mem sv) = (r, m)"
    by (cases "mem_Save C (Some s) (sv_mem sv)") auto
  have "mem_copies C (sv_trace sv) n m" by (rule save_copies [OF assms sav])
  then have "mem_copies C (ev # sv_trace sv) n m" by (rule mem_copies_mono) auto
  with \<open>mem_copies C (sv_trace sv) n m\<close> show ?thesis
    by (cases r) (simp_all add: svc_save_def sav)
qed

text \<open>Each step keeps the invariant. First the halves that only touch the store.\<close>

lemma evict_inv:
  assumes "site_inv C st" and "m \<subseteq>\<^sub>m sv_mem (st_service st)"
  shows "site_inv C (st\<lparr>st_service := (st_service st)\<lparr>sv_mem := m\<rparr>\<rparr>)"
proof -
  have "spent (st\<lparr>st_service := (st_service st)\<lparr>sv_mem := m\<rparr>\<rparr>) = spent st"
    by (rule ext) (simp add: spent_def)
  with assms show ?thesis by (auto simp: site_inv_def intro: mem_copies_mono)
qed

lemma begin_load_inv:
  assumes inv: "site_inv C st" and mk: "\<And>s. task_id (mk s) = i \<and> task_session (mk s) = s \<and> (\<forall>j. \<not> answers j (mk s))"
  shows "site_inv C (begin_load C mk now i st)"
proof (cases "mem_Load C now i (sv_mem (st_service st))")
  case (Pair r m)
  show ?thesis
  proof (cases r)
    case (Inl er)
    with Pair have "m \<subseteq>\<^sub>m sv_mem (st_service st)" by (simp add: mem_Load_Inl)
    with inv Pair Inl show ?thesis by (simp add: begin_load_def evict_inv)
  next
    case (Inr s)
    with Pair obtain raw where m: "m = sv_mem (st_service st)" "sv_mem (st_service st) i = Some raw"
        "c_Unmarshal C raw = Inr s"
      using mem_Load_Inr by blast
    then have "copy_ok (sv_trace (st_service st)) (spent st) i s"
      using inv mem_copiesD unfolding site_inv_def by blast
    then have t: "task_ok (sv_trace (st_service st)) (spent st) (mk s)"
      using mk [of s] by (simp add: task_ok_def)
    have st: "begin_load C mk now i st = st\<lparr>st_tasks := mk s # st_tasks st\<rparr>"
      using Pair Inr m(1) by (simp add: begin_load_def)
    have "spent (st\<lparr>st_tasks := mk s # st_tasks st\<rparr>) = spent st"
      using mk [of s] by (intro ext) (simp add: spent_def)
    with inv t show ?thesis by (simp add: st site_inv_def)
  qed
qed

lemma begin_respond_inv:
  assumes inv: "site_inv C st" and sound
    and alone: "\<forall>t \<in> set (st_tasks st). task_id t = i \<longrightarrow> answers i t"
  shows "site_inv C (begin_respond C now i body st)"
proof (cases "mem_ConsumeOnce C now i (sv_mem (st_service st))")
  case (Pair r m)
  let ?tr = "sv_trace (st_service st)"
  show ?thesis
  proof (cases r)
    case (Inl er)
    with Pair have "m \<subseteq>\<^sub>m sv_mem (st_service st)" by (simp add: mem_ConsumeOnce_Inl)
    with inv Pair Inl show ?thesis by (simp add: begin_respond_def evict_inv)
  next
    case (Inr s')
    with Pair obtain raw s raw' where m: "sv_mem (st_service st) i = Some raw" "c_Unmarshal C raw = Inr s"
        "\<not> S_Consumed s" "s' = s\<lparr>S_Consumed := True\<rparr>" "c_Marshal C s' = Inr raw'"
        "m = (sv_mem (st_service st))(i \<mapsto> raw')"
      using mem_ConsumeOnce_Inr by blast
    have c: "copy_ok ?tr (spent st) i s"
      using inv m(1,2) mem_copiesD unfolding site_inv_def by blast
    with m(3) have none: "spent st i = 0" by (auto simp: copy_ok_def)
    define st' where "st' = begin_respond C now i body st"
    have st': "st_service st' = (st_service st)\<lparr>sv_mem := m\<rparr>" "st_tasks st' = Answering i s' body # st_tasks st"
      using Pair Inr by (simp_all add: st'_def begin_respond_def)
    have sp: "spent st' j = (if i = j then 1 else spent st j)" for j
      using none by (auto simp: spent_def st')
    have c': "copy_ok ?tr (spent st') i s'" using c by (auto simp: copy_ok_def m(4))
    have other: "copy_ok ?tr (spent st') j x" if "copy_ok ?tr (spent st) j x" "j \<noteq> i" for j x
      using that sp [of j] by (auto simp: copy_ok_def)
    have "mem_copies C ?tr (spent st') m"
      unfolding mem_copies_def
    proof (intro allI impI)
      fix j r
      assume r: "m j = Some r"
      show "\<exists>x. c_Unmarshal C r = Inr x \<and> copy_ok ?tr (spent st') j x"
      proof (cases "j = i")
        case True
        obtain t where "c_Unmarshal C raw' = Inr t" "alike t s'"
          using keeps [OF assms(2) m(5)] c' by (auto simp: copy_ok_def)
        with True r m(6) c' copy_ok_alike [OF \<open>alike t s'\<close>] show ?thesis by auto
      next
        case False
        with r m(6) have "sv_mem (st_service st) j = Some r" by simp
        then obtain x where "c_Unmarshal C r = Inr x" "copy_ok ?tr (spent st) j x"
          using inv unfolding site_inv_def mem_copies_def by blast
        with other False show ?thesis by blast
      qed
    qed
    moreover have "task_ok ?tr (spent st') t" if "t \<in> set (st_tasks st)" for t
    proof -
      have "\<not> answers i t" using none that answering_pos [of i "st_tasks st"] by (auto simp: spent_def)
      with alone that have "task_id t \<noteq> i" by blast
      with inv that other show ?thesis unfolding site_inv_def task_ok_def by blast
    qed
    moreover have "task_ok ?tr (spent st') (Answering i s' body)"
      using c' by (simp add: task_ok_def m(4))
    ultimately show ?thesis
      using inv sp unfolding st'_def [symmetric] by (auto simp: site_inv_def st')
  qed
qed

text \<open>Then the second halves. A task that ends leaves no more to be processed than there was.\<close>

lemma finish_inv:
  assumes inv: "site_inv C st" and sound and ts: "st_tasks st = xs @ t # ys"
  shows "site_inv C (st\<lparr>st_service := finish D C e t (st_service st), st_tasks := xs @ ys\<rparr>)"
proof -
  define sv where "sv = st_service st"
  define st' where "st' = st\<lparr>st_service := finish D C e t sv, st_tasks := xs @ ys\<rparr>"
  have t: "task_ok (sv_trace sv) (spent st) t" and tasks: "\<forall>u \<in> set (xs @ ys). task_ok (sv_trace sv) (spent st) u"
    and mem: "mem_copies C (sv_trace sv) (spent st) (sv_mem sv)" and one: "\<And>i. spent st i \<le> 1"
    and cr: "\<And>i c. Processed i c \<in> set (sv_trace sv) \<Longrightarrow> Created i \<in> set (sv_trace sv)"
    using inv ts by (auto simp: site_inv_def sv_def)
  have c: "copy_ok (sv_trace sv) (spent st) (task_id t) (task_session t)" using t by (simp add: task_ok_def)
  have quiet: "site_inv C st'"
    if "mem_copies C (sv_trace (finish D C e t sv)) (spent st) (sv_mem (finish D C e t sv))"
      and "sv_trace (finish D C e t sv) = sv_trace sv
        \<or> (\<exists>ev. sv_trace (finish D C e t sv) = ev # sv_trace sv \<and> (\<forall>i c. ev \<noteq> Processed i c))"
  proof -
    have tr: "set (sv_trace sv) \<subseteq> set (sv_trace (finish D C e t sv))"
        "\<And>i. processed i (sv_trace (finish D C e t sv)) = processed i (sv_trace sv)"
        "\<And>i c. Processed i c \<in> set (sv_trace (finish D C e t sv)) \<Longrightarrow> Processed i c \<in> set (sv_trace sv)"
      using that(2) by (auto simp: processed_def)
    have sp: "spent st' i \<le> spent st i" for i
      using tr(2) [of i] by (simp add: spent_def st'_def ts sv_def)
    have sp0: "0 < spent st' i \<Longrightarrow> 0 < spent st i" for i using sp [of i] by simp
    have "task_ok (sv_trace (finish D C e t sv)) (spent st') u" if "u \<in> set (xs @ ys)" for u
      by (rule task_ok_mono [OF bspec [OF tasks that] tr(1)]) (rule sp0)
    moreover have "mem_copies C (sv_trace (finish D C e t sv)) (spent st') (sv_mem (finish D C e t sv))"
      by (rule mem_copies_mono [OF that(1) map_le_refl subset_refl]) (rule sp0)
    moreover have "spent st' i \<le> 1" for i using sp [of i] one [of i] by (rule order_trans)
    moreover have "Created i \<in> set (sv_trace (finish D C e t sv))"
      if "Processed i c \<in> set (sv_trace (finish D C e t sv))" for i c
      using cr [OF tr(3) [OF that]] tr(1) by blast
    ultimately show ?thesis unfolding site_inv_def by (auto simp: st'_def)
  qed
  have "site_inv C st'"
  proof (cases t)
    case (Serving i s)
    obtain r so w where call: "RequestObjectJWT D e (Some s) (sv_world sv) = (r, so, w)"
      by (cases "RequestObjectJWT D e (Some s) (sv_world sv)") auto
    show ?thesis
    proof (cases r)
      case (Inl er)
      then show ?thesis using mem by (intro quiet) (simp_all add: Serving call)
    next
      case (Inr tok)
      have "copy_ok (sv_trace sv) (spent st) i s" using c by (simp add: Serving)
      then obtain u where u: "so = Some u" "copy_ok (sv_trace sv) (spent st) i u"
        using engine_copy(1) [OF call [unfolded Inr]] by blast
      let ?sv = "sv\<lparr>sv_world := w\<rparr>"
      have "mem_copies C (sv_trace (svc_save C (Some u) (Fetched i) ?sv)) (spent st)
          (sv_mem (svc_save C (Some u) (Fetched i) ?sv))"
        using mem u(2) assms(2) by (intro svc_save_copies [where i = i]) simp_all
      then show ?thesis
        by (intro quiet) (simp_all add: Serving call Inr u(1) svc_save_def split: prod.split option.split)
    qed
  next
    case (Redeeming i s code)
    obtain r so where call: "ConsumeResponseCode (Some s) code = (r, so)"
      by (cases "ConsumeResponseCode (Some s) code") auto
    show ?thesis
    proof (cases r)
      case (Some er)
      then show ?thesis using mem by (intro quiet) (simp_all add: Redeeming call)
    next
      case None
      have "copy_ok (sv_trace sv) (spent st) i s" using c by (simp add: Redeeming)
      then obtain u where u: "so = Some u" "copy_ok (sv_trace sv) (spent st) i u"
        using engine_copy(2) [OF call [unfolded None]] by blast
      have "mem_copies C (sv_trace (svc_save C (Some u) (Redeemed i code) sv)) (spent st)
          (sv_mem (svc_save C (Some u) (Redeemed i code) sv))"
        using mem u(2) assms(2) by (intro svc_save_copies [where i = i]) simp_all
      then show ?thesis
        by (intro quiet) (simp_all add: Redeeming call None u(1) svc_save_def split: prod.split option.split)
    qed
  next
    case (Answering i s body)
    obtain r so w where call: "ProcessResponse D e (Some s) body (sv_world sv) = (r, so, w)"
      by (cases "ProcessResponse D e (Some s) body (sv_world sv)") auto
    show ?thesis
    proof (cases r)
      case (Inl er)
      then show ?thesis using mem by (intro quiet) (simp_all add: Answering call)
    next
      case (Inr pc)
      obtain prs code where pc: "pc = (prs, code)" by (cases pc)
      have "copy_ok (sv_trace sv) (spent st) i s" using c by (simp add: Answering)
      then obtain u where u: "so = Some u" "copy_ok (sv_trace sv) (spent st) i u"
        using engine_copy(3) [OF call [unfolded Inr pc]] by blast
      obtain rr m where sav: "mem_Save C so (sv_mem sv) = (rr, m)" by (cases "mem_Save C so (sv_mem sv)") auto
      have f: "sv_mem (finish D C e t sv) = m" "sv_trace (finish D C e t sv) = Processed i code # sv_trace sv"
        by (simp_all add: Answering call Inr pc sav)
      have parts: "sv_trace (st_service st') = Processed i code # sv_trace sv" "st_tasks st' = xs @ ys"
          "sv_mem (st_service st') = m"
        by (simp_all add: st'_def f)
      have sp: "spent st' = spent st"
        by (rule ext) (simp add: spent_def parts ts Answering flip: sv_def)
      have "mem_copies C (sv_trace sv) (spent st) m"
        using save_copies [OF mem assms(2) u(2)] sav u(1) by simp
      then have m: "mem_copies C (Processed i code # sv_trace sv) (spent st) m" by (rule mem_copies_mono) auto
      have u': "task_ok (Processed i code # sv_trace sv) (spent st) v" if "v \<in> set (xs @ ys)" for v
        using bspec [OF tasks that] by (rule task_ok_mono) auto
      have "Created i \<in> set (sv_trace sv)" using u(2) by (simp add: copy_ok_def)
      then have p: "Created j \<in> set (Processed i code # sv_trace sv)"
        if "Processed j d \<in> set (Processed i code # sv_trace sv)" for j d
        using that cr by auto
      show ?thesis
        by (rule site_invI; unfold sp parts) (rule one, rule m, erule u', erule p)
    qed
  qed
  then show ?thesis by (simp add: st'_def sv_def)
qed

lemma icreate_inv:
  assumes inv: "site_inv C st" and sound and new: "new_id D e spec (st_service st)"
  shows "site_inv C (st\<lparr>st_service := svc_create D C e spec (st_service st)\<rparr>)"
proof (cases "NewSession D e spec (sv_world (st_service st))")
  case (Pair r w)
  define sv where "sv = st_service st"
  show ?thesis
  proof (cases r)
    case (Inl er)
    have "spent (st\<lparr>st_service := sv\<lparr>sv_world := w\<rparr>\<rparr>) = spent st" by (rule ext) (simp add: spent_def sv_def)
    with inv Pair Inl show ?thesis by (simp add: svc_create_def site_inv_def flip: sv_def)
  next
    case (Inr si)
    obtain s iv where si: "si = (s, iv)" by (cases si)
    have n: "Created (S_ID s) \<notin> set (sv_trace sv)" using new Pair Inr si by (simp add: new_id_def sv_def)
    have tok: "ascii (S_ID s)" "ascii (S_ResponseCode s)"
      using Pair Inr si b64_encode_ascii
      by (auto elim!: NewSession_Inr dest!: randToken_token simp: make_session_def)
    have "\<not> answers (S_ID s) t" if "t \<in> set (st_tasks st)" for t
      using inv that n answers_id [of "S_ID s" t] by (auto simp: site_inv_def task_ok_def copy_ok_def sv_def)
    moreover have "Processed (S_ID s) c \<notin> set (sv_trace sv)" for c
      using inv n by (auto simp: site_inv_def sv_def)
    ultimately have none: "spent st (S_ID s) = 0"
      using answering_pos [of "S_ID s" "st_tasks st"]
      by (auto simp: spent_def processed_def filter_empty_conv sv_def)
    obtain rr m where sav: "mem_Save C (Some s) (sv_mem sv) = (rr, m)" by (cases "mem_Save C (Some s) (sv_mem sv)") auto
    let ?tr = "Created (S_ID s) # sv_trace sv"
    have mem: "mem_copies C (sv_trace sv) (spent st) (sv_mem sv)" using inv by (simp add: site_inv_def sv_def)
    show ?thesis
    proof (cases rr)
      case (Some er)
      then have "m = sv_mem sv" using sav by (auto dest: mem_Save_Some)
      moreover have "spent (st\<lparr>st_service := sv\<lparr>sv_world := w\<rparr>\<rparr>) = spent st" by (rule ext) (simp add: spent_def sv_def)
      ultimately show ?thesis using inv Pair Inr si Some sav
        by (simp add: svc_create_def svc_save_def site_inv_def flip: sv_def)
    next
      case None
      define st' where "st' = st\<lparr>st_service := sv\<lparr>sv_world := w, sv_mem := m, sv_trace := ?tr\<rparr>\<rparr>"
      have parts: "sv_trace (st_service st') = ?tr" "st_tasks st' = st_tasks st" "sv_mem (st_service st') = m"
        by (simp_all add: st'_def)
      have sp: "spent st' = spent st" by (rule ext) (simp add: spent_def parts flip: sv_def)
      have "mem_copies C ?tr (spent st) (sv_mem sv)" by (rule mem_copies_mono [OF mem]) auto
      moreover have "copy_ok ?tr (spent st) (S_ID s) s" using tok none by (simp add: copy_ok_def)
      ultimately have m: "mem_copies C ?tr (spent st) m" by (rule save_copies [OF _ assms(2) _ sav])
      have t: "task_ok ?tr (spent st) t" if "t \<in> set (st_tasks st)" for t
        by (rule task_ok_mono [of "sv_trace sv" "spent st" t]) (use inv that in \<open>auto simp: site_inv_def sv_def\<close>)
      have p: "Created j \<in> set ?tr" if "Processed j d \<in> set ?tr" for j d
        using that inv by (auto simp: site_inv_def sv_def)
      have one: "spent st j \<le> 1" for j using inv by (simp add: site_inv_def)
      have "site_inv C st'"
        by (rule site_invI; unfold sp parts) (rule one, rule m, erule t, erule p)
      moreover have "st\<lparr>st_service := svc_create D C e spec (st_service st)\<rparr> = st'"
        using Pair Inr si None sav by (simp add: svc_create_def svc_save_def st'_def flip: sv_def)
      ultimately show ?thesis by simp
    qed
  qed
qed

lemma istep_inv:
  assumes "istep True D C e st st'" and sound and "site_inv C st"
  shows "site_inv C st'"
  using assms(1)
proof cases
  case (i_create spec)
  then show ?thesis using icreate_inv [OF assms(3,2)] by simp
next
  case (i_fetch i now)
  then show ?thesis using begin_load_inv [OF assms(3), of "Serving i" i now] by simp
next
  case (i_redeem i code now)
  then show ?thesis using begin_load_inv [OF assms(3), of "\<lambda>s. Redeeming i s code" i now] by simp
next
  case (i_respond i now body)
  then show ?thesis using begin_respond_inv [OF assms(3,2)] by simp
next
  case (i_finish xs t ys)
  then show ?thesis using finish_inv [OF assms(3,2)] by simp
qed

lemma isteps_inv: "isteps True D C e st st' \<Longrightarrow> sound \<Longrightarrow> site_inv C st \<Longrightarrow> site_inv C st'"
  by (induction rule: rtranclp_induct) (auto intro: istep_inv)

lemma start_site_inv: "site_inv C (idle (start w))"
  by (simp add: site_inv_def idle_def start_def mem_copies_def NewMemStore_def spent_def)

end

section \<open>A run without the discipline\<close>

text \<open>
  One handler of each kind from a store that holds the session, as steps of a site whose other tasks
  are \<open>ts\<close>. The response handler leaves a consumed copy behind.
\<close>

lemma fetch_steps:
  assumes "stores L (sv_mem sv) s" and "now < S_ExpiresAt s"
  shows "istep serial D (json_codec L) e \<lparr>st_service = sv, st_tasks = ts\<rparr>
    \<lparr>st_service = sv, st_tasks = Serving (S_ID s) s # ts\<rparr>"
  using i_fetch [of serial D "json_codec L" e "\<lparr>st_service = sv, st_tasks = ts\<rparr>" "S_ID s" now]
    fit_load [OF assms] by (simp add: begin_load_def)

lemma serve_steps:
  assumes "json_fit L s" and "requestable D e s" and "S_Flow s \<noteq> DCAPI" and "\<not> S_RequestObjectServed s"
    and "\<forall>n. e_clock e n < S_ExpiresAt s"
  shows "\<exists>sv'. istep serial D (json_codec L) e \<lparr>st_service = sv, st_tasks = Serving (S_ID s) s # ts\<rparr>
      \<lparr>st_service = sv', st_tasks = ts\<rparr>
    \<and> stores L (sv_mem sv') (s\<lparr>S_RequestObjectServed := True\<rparr>)
    \<and> sv_trace sv' = Fetched (S_ID s) # sv_trace sv"
proof -
  obtain tok w where call: "RequestObjectJWT D e (Some s) (sv_world sv)
      = (Inr tok, Some (s\<lparr>S_RequestObjectServed := True\<rparr>), w)"
    using RequestObjectJWT_ok [OF assms(2), of "sv_world sv"] assms(3-5) by (auto simp: live_at_def)
  let ?s = "s\<lparr>S_RequestObjectServed := True\<rparr>"
  obtain m where m: "mem_Save (json_codec L) (Some ?s) (sv_mem sv) = (None, m)" "stores L m ?s"
    using json_fit_flags(1) [OF assms(1)] by (rule fit_save)
  have "istep serial D (json_codec L) e \<lparr>st_service = sv, st_tasks = Serving (S_ID s) s # ts\<rparr>
      \<lparr>st_service = finish D (json_codec L) e (Serving (S_ID s) s) sv, st_tasks = [] @ ts\<rparr>"
    using i_finish [of "\<lparr>st_service = sv, st_tasks = Serving (S_ID s) s # ts\<rparr>" "[]" "Serving (S_ID s) s" ts]
    by simp
  moreover have "finish D (json_codec L) e (Serving (S_ID s) s) sv
      = sv\<lparr>sv_world := w, sv_mem := m, sv_trace := Fetched (S_ID s) # sv_trace sv\<rparr>"
    by (simp add: call svc_save_def m(1))
  ultimately show ?thesis using m(2) by auto
qed

lemma respond_steps:
  assumes "stores L (sv_mem sv) s" and "json_fit L s" and "now < S_ExpiresAt s" and "\<not> S_Consumed s"
    and "\<forall>now < S_ExpiresAt s. acceptable D e (s\<lparr>S_Consumed := True\<rparr>) now body payload thumb"
    and "\<forall>n. e_clock e n < S_ExpiresAt s" and "\<forall>p. e_rand e p \<noteq> None"
  shows "\<exists>sv' c t. isteps False D (json_codec L) e \<lparr>st_service = sv, st_tasks = ts\<rparr>
      \<lparr>st_service = sv', st_tasks = ts\<rparr>
    \<and> sv_trace sv' = Processed (S_ID s) c # sv_trace sv
    \<and> stores L (sv_mem sv') t \<and> S_ID t = S_ID s \<and> S_Consumed t
    \<and> S_RequestObjectServed t = S_RequestObjectServed s"
proof -
  let ?s = "s\<lparr>S_Consumed := True\<rparr>"
  obtain m where m: "mem_ConsumeOnce (json_codec L) now (S_ID s) (sv_mem sv) = (Inr ?s, m)"
    using fit_consume [OF assms(1-4)] by blast
  obtain tok w1 where tok: "randToken (e_rand e) tokenBytes (tick_once (sv_world sv)) = (Inr tok, w1)"
    using randToken_total [OF assms(7)] by blast
  obtain prs c so w where call: "ProcessResponse D e (Some ?s) body (sv_world sv) = (Inr (prs, c), so, w)"
    using ProcessResponse_acceptable [of D e ?s "sv_world sv" body payload thumb] assms(5,6) tok
    by (auto simp: Let_def split: if_splits)
  from call have "so = Some ?s \<or> (\<exists>bs. so = Some (?s\<lparr>S_ResponseCode := b64_encode bs, S_ResponseCodeUsed := False\<rparr>))"
    by (rule ProcessResponse_Inr) (auto split: if_splits dest!: randToken_token)
  then obtain t where t: "so = Some t" "json_fit L t" "S_ID t = S_ID s" "S_Consumed t"
      "S_RequestObjectServed t = S_RequestObjectServed s"
    using json_fit_flags(5) [OF json_fit_flags(2) [OF assms(2), of True]] json_fit_flags(2) [OF assms(2), of True]
      utf8_token by auto
  obtain m2 where m2: "mem_Save (json_codec L) so m = (None, m2)" "stores L m2 t"
    unfolding t(1) using t(2) by (rule fit_save)
  let ?t = "Answering (S_ID s) ?s body"
  have "istep False D (json_codec L) e \<lparr>st_service = sv, st_tasks = ts\<rparr>
      \<lparr>st_service = sv\<lparr>sv_mem := m\<rparr>, st_tasks = ?t # ts\<rparr>"
    using i_respond [of False "\<lparr>st_service = sv, st_tasks = ts\<rparr>" "S_ID s" D "json_codec L" e now body] m
    by (simp add: begin_respond_def)
  moreover have "istep False D (json_codec L) e \<lparr>st_service = sv\<lparr>sv_mem := m\<rparr>, st_tasks = ?t # ts\<rparr>
      \<lparr>st_service = finish D (json_codec L) e ?t (sv\<lparr>sv_mem := m\<rparr>), st_tasks = [] @ ts\<rparr>"
    using i_finish [of "\<lparr>st_service = sv\<lparr>sv_mem := m\<rparr>, st_tasks = ?t # ts\<rparr>" "[]" ?t ts] by simp
  moreover have "finish D (json_codec L) e ?t (sv\<lparr>sv_mem := m\<rparr>)
      = sv\<lparr>sv_mem := m2, sv_world := w, sv_trace := Processed (S_ID s) c # sv_trace sv\<rparr>"
    by (simp add: call m2(1))
  ultimately have "isteps False D (json_codec L) e \<lparr>st_service = sv, st_tasks = ts\<rparr>
      \<lparr>st_service = sv\<lparr>sv_mem := m2, sv_world := w, sv_trace := Processed (S_ID s) c # sv_trace sv\<rparr>, st_tasks = ts\<rparr>"
    by (metis append_Nil converse_rtranclp_into_rtranclp r_into_rtranclp)
  with m2(2) t(3-5) show ?thesis by (intro exI [of _ t] exI conjI) auto
qed

section \<open>The sample\<close>

definition sample_waiting :: "(credential list, string) session" where
  "sample_waiting = sample_session\<lparr>S_RequestObjectServed := False, S_Consumed := False\<rparr>"

lemma sample_waiting_fit: "json_fit sample_json sample_waiting"
  unfolding sample_waiting_def by (intro json_fit_flags sample_fit)

lemma sample_acceptable:
  obtains payload thumb where
    "\<forall>now < 10000000000. acceptable sample_deps sample_engine sample_session now sample_body payload thumb"
proof -
  obtain prs c so w where "ProcessResponse sample_deps sample_engine (Some sample_session) sample_body sample_world
      = (Inr (prs, c), so, w)"
    by (rule sample_response)
  then obtain payload thumb where "acceptable sample_deps sample_engine sample_session
      (e_clock sample_engine (w_ticks sample_world)) sample_body payload thumb"
    by (rule ProcessResponse_Inr) blast
  with that [of payload thumb] show ?thesis
    by (simp add: acceptable_def sample_session_def)
qed

lemma sample_waiting_requestable: "requestable sample_deps sample_engine sample_waiting"
  using sample_requestable(1)
  by (simp add: requestable_def sample_waiting_def sample_unserved_def ephemeralPrivateKey_def)

lemma sample_engine_env: "e_clock sample_engine n = 0" "e_rand sample_engine p \<noteq> None"
  by (simp_all add: sample_engine_def make_engine_def sample_cfg_def sample_deps_def Let_def)

section \<open>Properties\<close>

text \<open>
  C16: What the store's atomic consumption guarantees. Handlers of all kinds run interleaved, in any number
  and with any input and times, and each works on the copy it has loaded; no session id is drawn twice (the
  premise of creation). As long as no response is consumed while a loaded copy of the same session is
  being worked on, the presentations of a session are handed out at most once, and are never worked out
  twice at a time.
\<close>

theorem serial_responses_once:
  assumes "json_readable L" and "isteps True D (json_codec L) e (idle (start w)) st"
  shows "processed i (sv_trace (st_service st)) + answering i (st_tasks st) \<le> 1"
  using json.isteps_inv [OF assms(2,1) json.start_site_inv] by (simp add: site_inv_def spent_def)

theorem serial_responses_once_witness:
  "\<exists>i st. isteps True sample_deps (json_codec sample_json) sample_engine (idle (start sample_world)) st
     \<and> sv_trace (st_service st) = [Created i]
     \<and> processed i (sv_trace (st_service st)) + answering i (st_tasks st) \<le> 1"
proof -
  obtain s iv w where ok: "NewSession sample_deps sample_engine sample_spec sample_world = (Inr (s, iv), w)"
    by (rule sample_new_session)
  have id: "S_ID s \<noteq> []"
    using ok by (auto elim!: NewSession_Inr dest: randToken_ne simp: make_session_def tokenBytes_def)
  obtain raw where raw: "session_marshal sample_json s = Inr raw"
    using ok sample_writable by blast
  let ?st = "(idle (start sample_world))\<lparr>st_service :=
    svc_create sample_deps (json_codec sample_json) sample_engine sample_spec (start sample_world)\<rparr>"
  have "istep True sample_deps (json_codec sample_json) sample_engine (idle (start sample_world)) ?st"
    using i_create [of sample_deps sample_engine sample_spec "idle (start sample_world)"] ok
    by (simp add: new_id_def start_def idle_def)
  then have r: "isteps True sample_deps (json_codec sample_json) sample_engine (idle (start sample_world)) ?st"
    by (rule r_into_rtranclp)
  moreover have "sv_trace (st_service ?st) = [Created (S_ID s)]"
    using ok id raw by (simp add: svc_create_def svc_save_def mem_Save_def start_def json_codec_def)
  ultimately show ?thesis
    using serial_responses_once [OF sample_json_readable r, of "S_ID s"] by blast
qed

text \<open>
  C19: Without that order the single-use guarantees do not compose. A wallet that fetches its request twice
  at the same time and posts its response twice can make a service that follows the documented
  sequence (load, build, save; consume, process, save) hand out both the request object and the
  presentations twice. After the first response the stored session is marked consumed; the second fetch then
  saves the copy it had loaded before, which it has marked served but which is not consumed, so that
  the response is consumed and processed again.
\<close>

theorem unserialised_handlers_repeat:
  assumes "stores L (sv_mem sv) s" and "json_fit L s" and "requestable D e s" and "S_Flow s \<noteq> DCAPI"
    and "\<not> S_RequestObjectServed s" and "\<not> S_Consumed s"
    and "\<forall>n. e_clock e n < S_ExpiresAt s" and "\<forall>p. e_rand e p \<noteq> None"
    and "\<forall>now < S_ExpiresAt s.
      acceptable D e (s\<lparr>S_RequestObjectServed := True, S_Consumed := True\<rparr>) now body payload thumb"
  shows "\<exists>sv2 sv3 sv' t c1 c2.
      isteps False D (json_codec L) e (idle sv) \<lparr>st_service = sv2, st_tasks = [Serving (S_ID s) s]\<rparr>
    \<and> sv_trace sv2 = [Processed (S_ID s) c1, Fetched (S_ID s)] @ sv_trace sv
    \<and> stores L (sv_mem sv2) t \<and> S_ID t = S_ID s \<and> S_Consumed t \<and> S_RequestObjectServed t
    \<and> istep False D (json_codec L) e \<lparr>st_service = sv2, st_tasks = [Serving (S_ID s) s]\<rparr> (idle sv3)
    \<and> sv_trace sv3 = Fetched (S_ID s) # sv_trace sv2
    \<and> stores L (sv_mem sv3) (s\<lparr>S_RequestObjectServed := True\<rparr>)
    \<and> isteps False D (json_codec L) e (idle sv3) (idle sv')
    \<and> sv_trace sv' = Processed (S_ID s) c2 # sv_trace sv3"
proof -
  let ?i = "S_ID s" and ?served = "s\<lparr>S_RequestObjectServed := True\<rparr>" and ?C = "json_codec L"
  have now: "e_clock e 0 < S_ExpiresAt s" using assms(7) by simp
  have served: "json_fit L ?served" "\<not> S_Consumed ?served" "S_ID ?served = ?i" "S_ExpiresAt ?served = S_ExpiresAt s"
    using json_fit_flags(1) [OF assms(2)] assms(6) by simp_all
  have start: "isteps False D ?C e (idle sv) \<lparr>st_service = sv, st_tasks = [Serving ?i s, Serving ?i s]\<rparr>"
    unfolding idle_def
    by (meson fetch_steps [OF assms(1) now] converse_rtranclp_into_rtranclp r_into_rtranclp)
  obtain sv1 where 1: "istep False D ?C e \<lparr>st_service = sv, st_tasks = [Serving ?i s, Serving ?i s]\<rparr>
      \<lparr>st_service = sv1, st_tasks = [Serving ?i s]\<rparr>"
      "stores L (sv_mem sv1) ?served" "sv_trace sv1 = Fetched ?i # sv_trace sv"
    using serve_steps [OF assms(2-5,7)] by blast
  have respond: "\<exists>sv' c t. isteps False D ?C e \<lparr>st_service = x, st_tasks = ts\<rparr> \<lparr>st_service = sv', st_tasks = ts\<rparr>
      \<and> sv_trace sv' = Processed ?i c # sv_trace x
      \<and> stores L (sv_mem sv') t \<and> S_ID t = ?i \<and> S_Consumed t \<and> S_RequestObjectServed t"
    if "stores L (sv_mem x) ?served" for x ts
    using respond_steps [OF that served(1) _ served(2), of "e_clock e 0" D e body payload thumb ts] now assms(7-9)
    by simp
  obtain sv2 c1 t where 2: "isteps False D ?C e \<lparr>st_service = sv1, st_tasks = [Serving ?i s]\<rparr>
      \<lparr>st_service = sv2, st_tasks = [Serving ?i s]\<rparr>" "sv_trace sv2 = Processed ?i c1 # sv_trace sv1"
      "stores L (sv_mem sv2) t" "S_ID t = ?i" "S_Consumed t" "S_RequestObjectServed t"
    using respond [OF 1(2)] by blast
  obtain sv3 where 3: "istep False D ?C e \<lparr>st_service = sv2, st_tasks = [Serving ?i s]\<rparr> (idle sv3)"
      "stores L (sv_mem sv3) ?served" "sv_trace sv3 = Fetched ?i # sv_trace sv2"
    using serve_steps [OF assms(2-5,7)] unfolding idle_def by blast
  obtain sv4 c2 where 4: "isteps False D ?C e (idle sv3) (idle sv4)" "sv_trace sv4 = Processed ?i c2 # sv_trace sv3"
    using respond [OF 3(2)] unfolding idle_def by blast
  have "isteps False D ?C e (idle sv) \<lparr>st_service = sv2, st_tasks = [Serving ?i s]\<rparr>"
    using start 1(1) 2(1) by (meson rtranclp.rtrancl_into_rtrancl rtranclp_trans)
  with 1(3) 2(2-6) 3 4 show ?thesis by (intro exI conjI) (assumption | simp)+
qed

theorem unserialised_handlers_repeat_witness:
  "\<exists>sv sv2 sv3 sv' c1 c2. stores sample_json (sv_mem sv) sample_waiting \<and> sv_trace sv = []
     \<and> isteps False sample_deps (json_codec sample_json) sample_engine (idle sv)
         \<lparr>st_service = sv2, st_tasks = [Serving ''sid'' sample_waiting]\<rparr>
     \<and> istep False sample_deps (json_codec sample_json) sample_engine
         \<lparr>st_service = sv2, st_tasks = [Serving ''sid'' sample_waiting]\<rparr> (idle sv3)
     \<and> isteps False sample_deps (json_codec sample_json) sample_engine (idle sv3) (idle sv')
     \<and> sv_trace sv' = [Processed ''sid'' c2, Fetched ''sid'', Processed ''sid'' c1, Fetched ''sid'']"
proof -
  obtain m where m: "stores sample_json m sample_waiting"
    using sample_waiting_fit by (rule fit_save)
  obtain payload thumb where ok:
      "\<forall>now < 10000000000. acceptable sample_deps sample_engine sample_session now sample_body payload thumb"
    by (rule sample_acceptable)
  let ?sv = "\<lparr>sv_mem = m, sv_world = sample_world, sv_trace = []\<rparr>"
  have eq: "sample_waiting\<lparr>S_RequestObjectServed := True, S_Consumed := True\<rparr> = sample_session"
    "S_ExpiresAt sample_waiting = 10000000000" "S_ID sample_waiting = ''sid''" "S_Flow sample_waiting \<noteq> DCAPI"
    "\<not> S_RequestObjectServed sample_waiting" "\<not> S_Consumed sample_waiting"
    by (simp_all add: sample_waiting_def sample_session_def DCAPI_def)
  from m have st: "stores sample_json (sv_mem ?sv) sample_waiting" by simp
  from unserialised_handlers_repeat [OF st sample_waiting_fit sample_waiting_requestable eq(4-6),
      of sample_body payload thumb] ok
  obtain sv2 sv3 sv' c1 c2 where
      "isteps False sample_deps (json_codec sample_json) sample_engine (idle ?sv)
         \<lparr>st_service = sv2, st_tasks = [Serving ''sid'' sample_waiting]\<rparr>"
      "istep False sample_deps (json_codec sample_json) sample_engine
         \<lparr>st_service = sv2, st_tasks = [Serving ''sid'' sample_waiting]\<rparr> (idle sv3)"
      "isteps False sample_deps (json_codec sample_json) sample_engine (idle sv3) (idle sv')"
      "sv_trace sv' = [Processed ''sid'' c2, Fetched ''sid'', Processed ''sid'' c1, Fetched ''sid'']"
    by (auto simp: sample_engine_env eq)
  with st show ?thesis by (intro exI [of _ ?sv] exI conjI) (assumption | simp)+
qed

end
