(* ===== verification/Spec2Isabelle.thy ===== *)
theory Spec2Isabelle
  imports Go_Base64 Go_Url_Parse Go_Json Go_Json_Round Go_Time Errors Session Sample Store Session_Codec
    Store_Suite Engine Transaction_Data Request_Object New_Session Response Limits Wallet Same_Device
    Stored_Sessions Protocol Concurrency
begin

text \<open>
  A verification development for \<open>go-oid4vp\<close>, the verifier's side of OpenID for Verifiable Presentations
  1.0. This theory is its root and its guide.

  \<^bold>\<open>The program.\<close> The library has no transport and no storage of its own. An \<open>Engine\<close> (\<open>engine.go\<close>)
  holds the checked configuration, a clock and a random source. \<open>NewSession\<close> (\<open>newsession.go\<close>)
  makes a \<open>Session\<close> (\<open>session.go\<close>), a record of everything one verification needs, and the
  invocation that sends the wallet to it. The wallet fetches a signed request made from the session
  (\<open>requestobject.go\<close>, or \<open>dcapi.go\<close> for the browser's Digital Credentials API) and posts an encrypted
  response, which \<open>response.go\<close> or \<open>dcapi.go\<close> decrypts with the session's own key, checks against the
  session and turns into presentations. In the same-device flow a response code brings the browser back
  (\<open>samedevice.go\<close>). \<open>transcript.go\<close>, \<open>transactiondata.go\<close> and \<open>walletmetadata.go\<close> serve the caller
  before and after. Between these calls the caller keeps the session in a \<open>SessionStore\<close>
  (\<open>memstore.go\<close> is the reference, \<open>storetest\<close> the contract suite), whose \<open>ConsumeOnce\<close> is the one atomic
  step. Every failure is an error that wraps a sentinel (\<open>errors.go\<close>); \<open>errorresponse.go\<close> maps it
  to what the wallet is told.

  \<^bold>\<open>How it is modelled.\<close> Strings and byte slices are lists of characters, one for each byte; times are
  nanoseconds since 1970 as integers; structs are records and constants are definitions, with the
  source's names (fields carry a prefix for their struct). A function that can fail returns \<open>err + 'a\<close>.
  What a function changes it takes and returns: the session (\<open>None\<close> is the nil pointer), and the \<open>world\<close>,
  which counts how often the clock was read and how many random bytes were taken. The
  engine's clock and random source are functions of these counters, so nothing is assumed of either
  unless a theorem says so. Go's maps are partial functions or association lists.

  \<^bold>\<open>Theories and sources.\<close>
  \<^item> \<^theory_text>\<open>Prelude\<close>: result binds and loops, lists, bytes, the locale \<open>text_coding\<close> of an encoding with its
    decoder, \<open>strings.Cut\<close>.
  \<^item> \<^theory_text>\<open>Go_Base64\<close>, \<^theory_text>\<open>Go_Url\<close>, \<^theory_text>\<open>Go_Url_Parse\<close>, \<^theory_text>\<open>Go_Json\<close>, \<^theory_text>\<open>Go_Json_Round\<close>, \<^theory_text>\<open>Go_Time\<close>: what the
    source uses of Go's standard library (base64 in both alphabets, query strings, \<open>url.Parse\<close>,
    \<open>encoding/json\<close>, RFC 3339 times), with their round trips.
  \<^item> \<^theory_text>\<open>Errors\<close>: \<open>errors.go\<close> and \<open>errorresponse.go\<close>. \<^theory_text>\<open>Session\<close>: \<open>session.go\<close> and the record \<open>deps\<close> of
    all third-party functions. \<^theory_text>\<open>Sample\<close>: the concrete values the witnesses use.
  \<^item> \<^theory_text>\<open>Store\<close>: \<open>memstore.go\<close>, and the contract of \<open>SessionStore\<close> as the locale \<open>session_store\<close>.
    \<^theory_text>\<open>Session_Codec\<close>: the JSON tags of \<open>Session\<close>, as \<open>Marshal\<close> and \<open>Unmarshal\<close> use them.
    \<^theory_text>\<open>Store_Suite\<close>: \<open>storetest/storetest.go\<close>.
  \<^item> \<^theory_text>\<open>Engine\<close>: \<open>engine.go\<close>. \<^theory_text>\<open>New_Session\<close>: \<open>newsession.go\<close>. \<^theory_text>\<open>Transaction_Data\<close>: \<open>transactiondata.go\<close>.
    \<^theory_text>\<open>Request_Object\<close>: \<open>requestobject.go\<close> and the requests of \<open>dcapi.go\<close>. \<^theory_text>\<open>Response\<close>: \<open>response.go\<close> and
    the responses of \<open>dcapi.go\<close>. \<^theory_text>\<open>Same_Device\<close>: \<open>samedevice.go\<close>, \<open>transcript.go\<close> and
    \<open>walletmetadata.go\<close>.
  \<^item> \<^theory_text>\<open>Limits\<close>: bounds on what a wallet can cause. \<^theory_text>\<open>Wallet\<close>: what a wallet reads, and the answer it composes.
    \<^theory_text>\<open>Stored_Sessions\<close>: the engine's sessions fit the store.
    \<^theory_text>\<open>Protocol\<close>: a service that runs one handler at a time and each to its end, in the order that the doc
    comments prescribe. \<^theory_text>\<open>Concurrency\<close>: the same handlers interleaved at the store's operations. Both
    assume that no session id is drawn twice.

  \<^bold>\<open>Interfaces.\<close> \<open>text_coding\<close> is interpreted for base64 and for query escaping. \<open>session_store\<close> states
  what a store promises over an abstract view of it; its consequences (the race for a response, at most one
  winner, isolation, passing the contract suite) are proved once in it, and \<open>MemStore\<close> interprets it for
  every codec. \<open>snapshots\<close> states what a service needs of the codec; the JSON form of sessions
  interprets it, and the invariants of \<^theory_text>\<open>Protocol\<close> and \<^theory_text>\<open>Concurrency\<close> are proved in it.

  \<^bold>\<open>What is shown.\<close>
  \<^item> Responses: exactly which are accepted, in both flows; that presentations answer the query, are the
    tokens of the decrypted payload, all of them, and carry the session's nonce, client id, endpoint or
    origin and key thumbprint; that rejections are client errors and do not change the session; how long
    a response is at most that reaches decryption (the configured limit for a form, three times the limit in
    the Digital Credentials API, whose JSON is read after the limit was checked); that the answer of an
    honest wallet is accepted.
  \<^item> Single use: of the request object, of the response (the store's race, histories of a service, and
    interleavings), and of the response code, which a wrong guess does not burn. \<open>stale_save_revives\<close> and
    \<open>unserialised_handlers_repeat\<close> show where the documented guarantee ends.
  \<^item> Requests: their exact members, that they depend on the public half of the session's key only,
    that the advertised key is that half, that they are made when all parts are in order, and that a wallet
    reads in them what the session holds.
  \<^item> Sessions: which specifications and configurations are accepted, which errors others get, that the
    tokens are 128 bits of fresh randomness each, that invocation and redirect lead back to the session.
  \<^item> Storage: the JSON form is read back to the same session; the store refines a map that forgets what
    has expired; engine operations keep sessions storable; \<open>MemStore\<close> passes its suite.
  \<^item> Errors: the response to the wallet is one of a fixed set and never contains input. In error values
    the texts that come from a wallet are cut; the texts of errors of other packages, which are wrapped as
    they are, are counted among the texts of an error and are the exception.

  \<^bold>\<open>Bounds and fuel.\<close> The JSON parser recurses on fuel, two steps for each byte and two more; \<open>pvalue_fuel\<close>
  and \<open>json_prefix_iff\<close> show that this is enough and that no amount of fuel gives another answer. Its
  nesting limit of 10000 is Go's, and so is the limit of 10000 parameters of a form, the default of
  \<open>net/url\<close> in the releases that have it. Recursions over strings elsewhere end by their length. Lengths and times
  are unbounded integers: the source compares and adds them far below the limits of 64 bits, except
  for a \<open>SessionTTL\<close> of centuries, which is not considered.

  \<^bold>\<open>Parameters.\<close> Not in the repository, so fields of \<open>deps\<close> or \<open>json_lib\<close> or arguments: signing, decryption, key
  generation and thumbprints (\<open>go-eudi-crypto\<close>), PKCS #8, the query language (\<open>go-dcql\<close>), registration
  references (\<open>go-eudi-rpcert\<close>), the handovers of \<open>go-mdoc\<close>, \<open>netip\<close>, and the JSON forms of query and
  registration. What a theorem needs of them is a hypothesis of it, and its witness runs on the instance
  in \<^theory_text>\<open>Sample\<close>.

  \<^bold>\<open>Not modelled.\<close> Contexts and loggers, which the code passes on or writes to; the fixed wording
  of error messages; constant-time comparison, which is equality here; memory shared through pointers
  and slices, other than the session that an operation updates; the more lenient reader of times that
  \<open>time.UnmarshalJSON\<close> tries when the strict one fails. Tests, fuzzing, test data, continuous
  integration and the package comment \<open>doc.go\<close> contain no code of the library.

  \<^bold>\<open>Plan.\<close> Still worth adding: the honest wallet of the Digital Credentials API, and the lenient reader of
  times.
\<close>

end
